theory Spec2Isabelle
  imports Complex_Main "HOL-Library.Word"
begin

section \<open>Strings as the chunker sees them\<close>

text \<open>
  A JavaScript string is a sequence of code units; the development uses \<^typ>\<open>string\<close>,
  one \<^typ>\<open>char\<close> per code unit, so \<open>length\<close> is the \<open>.length\<close> of the source.
  The white space of \<open>String.prototype.trim\<close> and of the class \<open>\s\<close> is, among the code
  units a \<^typ>\<open>char\<close> can hold, TAB, LF, VT, FF, CR, SPACE and NBSP; the line terminators (the
  code units that \<open>.\<close> refuses and at which \<open>^\<close> and \<open>$\<close> match under the flag \<open>m\<close>) are
  LF and CR.
\<close>

definition isWhiteSpace :: "char \<Rightarrow> bool" where
  "isWhiteSpace c \<longleftrightarrow>
     c \<in> {CHR 0x09, CHR 0x0A, CHR 0x0B, CHR 0x0C, CHR 0x0D, CHR 0x20, CHR 0xA0}"

definition isLineTerminator :: "char \<Rightarrow> bool" where
  "isLineTerminator c \<longleftrightarrow> c = CHR 0x0A \<or> c = CHR 0x0D"

definition notLineTerminator :: "char \<Rightarrow> bool" where
  "notLineTerminator c \<longleftrightarrow> \<not> isLineTerminator c"

definition isUpper :: "char \<Rightarrow> bool" where
  "isUpper c \<longleftrightarrow> (65::nat) \<le> of_char c \<and> of_char c \<le> (90::nat)"

definition isAlnum :: "char \<Rightarrow> bool" where
  "isAlnum c \<longleftrightarrow>
     (let n = (of_char c :: nat)
      in (97 \<le> n \<and> n \<le> 122) \<or> (65 \<le> n \<and> n \<le> 90) \<or> (48 \<le> n \<and> n \<le> 57))"

text \<open>\<open>s.trim()\<close>.\<close>

definition trim :: "string \<Rightarrow> string" where
  "trim s = rev (dropWhile isWhiteSpace (rev (dropWhile isWhiteSpace s)))"

text \<open>
  \<open>s.slice(start)\<close> with one argument: a negative \<open>start\<close> counts from the end, and
  \<open>slice(-0)\<close> is \<open>slice(0)\<close>, the whole string.
\<close>

definition sliceFrom :: "int \<Rightarrow> string \<Rightarrow> string" where
  "sliceFrom start s =
     (let len = int (length s);
          from = (if start < 0 then max (len + start) 0 else min start len)
      in drop (nat from) s)"

text \<open>\<open>s.split('\n')\<close>: the pieces between the separators; the empty string gives one empty piece.\<close>

fun splitOn :: "char \<Rightarrow> string \<Rightarrow> string list" where
  "splitOn d [] = [[]]"
| "splitOn d (c # cs) =
     (if c = d then [] # splitOn d cs
      else (case splitOn d cs of [] \<Rightarrow> [[c]] | piece # pieces \<Rightarrow> (c # piece) # pieces))"

text \<open>
  \<open>s.split(/\n\n+/)\<close>: a separator is a maximal run of two or more LF; the accumulator
  holds the piece being read, reversed.
\<close>

function splitParagraphs :: "string \<Rightarrow> string \<Rightarrow> string list" where
  "splitParagraphs acc [] = [rev acc]"
| "splitParagraphs acc (c # cs) =
     (if c = CHR 0x0A \<and> cs \<noteq> [] \<and> hd cs = CHR 0x0A
      then rev acc # splitParagraphs [] (dropWhile (\<lambda>x. x = CHR 0x0A) cs)
      else splitParagraphs (c # acc) cs)"
  by pat_completeness auto
termination
  by (relation "measure (\<lambda>(acc, s). length s)")
     (auto simp: less_Suc_eq_le length_dropWhile_le)

section \<open>Title extraction\<close>

text \<open>
  \<open>content.match(/^#\s+(.+)$/m)\<close> tried at one line start. After \<open>#\<close> the greedy \<open>\s+\<close>
  takes the whole run of white space (line terminators included); \<open>(.+)\<close> then needs one
  code unit that is no line terminator and runs to the end of that line, where \<open>$\<close> holds.
  When the white space reaches the end of the input, \<open>\s+\<close> gives code units back, the
  fewest possible, until the one it gives back first is no line terminator.
\<close>

definition giveBack :: "string \<Rightarrow> string option" where
  "giveBack ws =
     find (\<lambda>t. notLineTerminator (hd t)) (map (\<lambda>k. drop k ws) (rev [1 ..< length ws]))"

definition headingAt :: "string \<Rightarrow> string option" where
  "headingAt s =
     (case s of
        [] \<Rightarrow> None
      | c # r \<Rightarrow>
          if c \<noteq> CHR ''#'' then None
          else let ws = takeWhile isWhiteSpace r; rest = dropWhile isWhiteSpace r
               in if ws = [] then None
                  else if rest \<noteq> [] then Some (takeWhile notLineTerminator rest)
                  else map_option (takeWhile notLineTerminator) (giveBack ws))"

text \<open>
  The search for the leftmost match: under the flag \<open>m\<close>, \<open>^\<close> holds at the start of the
  input and after every line terminator. The flag says whether the position is such a start.
\<close>

fun firstHeading :: "bool \<Rightarrow> string \<Rightarrow> string option" where
  "firstHeading atStart [] = None"
| "firstHeading atStart (c # cs) =
     (case (if atStart then headingAt (c # cs) else None) of
        Some t \<Rightarrow> Some t
      | None \<Rightarrow> firstHeading (isLineTerminator c) cs)"

text \<open>
  \<open>fallbackFilename.replace(/\.(md|mdx)$/i, '')\<close>: without the flag \<open>m\<close>, \<open>$\<close> is the end
  of the input, so only a trailing extension goes, in any letter case.
\<close>

definition sameLetter :: "char \<Rightarrow> char \<Rightarrow> bool" where
  "sameLetter p c \<longleftrightarrow>
     c = p \<or> (p = CHR ''m'' \<and> c = CHR ''M'') \<or> (p = CHR ''d'' \<and> c = CHR ''D'')
           \<or> (p = CHR ''x'' \<and> c = CHR ''X'')"

definition endsWithCI :: "string \<Rightarrow> string \<Rightarrow> bool" where
  "endsWithCI pat s \<longleftrightarrow>
     length pat \<le> length s \<and> list_all2 sameLetter pat (drop (length s - length pat) s)"

definition stripMarkdownExtension :: "string \<Rightarrow> string" where
  "stripMarkdownExtension f =
     (if endsWithCI ''.mdx'' f then take (length f - 4) f
      else if endsWithCI ''.md'' f then take (length f - 3) f
      else f)"

definition extractTitle :: "string \<Rightarrow> string \<Rightarrow> string" where
  "extractTitle content fallbackFilename =
     (case firstHeading True content of
        Some t \<Rightarrow> trim t
      | None \<Rightarrow> stripMarkdownExtension fallbackFilename)"

section \<open>Markup stripping\<close>

text \<open>
  \<open>s.replace(re, repl)\<close> for a global regular expression: the matches are found from left
  to right and do not overlap. A matcher is given whether the position starts a line (for
  \<open>^\<close> under the flag \<open>m\<close>) and the rest of the input, and answers the length of the match
  there. No pattern of this module matches the empty string.
\<close>

function replaceAll :: "(bool \<Rightarrow> string \<Rightarrow> nat option) \<Rightarrow> string \<Rightarrow> bool \<Rightarrow> string \<Rightarrow> string" where
  "replaceAll m repl atStart [] = []"
| "replaceAll m repl atStart (c # cs) =
     (case m atStart (c # cs) of
        None \<Rightarrow> c # replaceAll m repl (isLineTerminator c) cs
      | Some n \<Rightarrow>
          if n = 0 then c # replaceAll m repl (isLineTerminator c) cs
          else repl @ replaceAll m repl (isLineTerminator (last (take n (c # cs))))
                        (drop n (c # cs)))"
  by pat_completeness auto
termination
  by (relation "measure (\<lambda>(m, repl, atStart, s). length s)") auto

text \<open>\<open>/^import\s+.*$/gm\<close> and \<open>/^export\s+.*$/gm\<close>, the keyword a parameter.\<close>

definition declarationLine :: "string \<Rightarrow> bool \<Rightarrow> string \<Rightarrow> nat option" where
  "declarationLine kw atStart s =
     (let r = drop (length kw) s; ws = takeWhile isWhiteSpace r
      in if atStart \<and> take (length kw) s = kw \<and> ws \<noteq> []
         then Some (length kw + length ws
                    + length (takeWhile notLineTerminator (dropWhile isWhiteSpace r)))
         else None)"

definition upToClose :: "string \<Rightarrow> string" where
  "upToClose r = takeWhile (\<lambda>x. x \<noteq> CHR ''>'') r"

text \<open>\<open>/<[A-Z][a-zA-Z0-9]*[^>]*\/>/g\<close>: the first \<open>>\<close> after the name must follow a \<open>/\<close>.\<close>

definition selfClosingTag :: "bool \<Rightarrow> string \<Rightarrow> nat option" where
  "selfClosingTag atStart s =
     (case s of
        lt # u # r \<Rightarrow>
          let pre = upToClose r
          in if lt = CHR ''<'' \<and> isUpper u \<and> length pre < length r
                \<and> pre \<noteq> [] \<and> last pre = CHR ''/''
             then Some (length pre + 3) else None
      | _ \<Rightarrow> None)"

text \<open>The offset of the first occurrence of a pattern.\<close>

fun findSub :: "string \<Rightarrow> string \<Rightarrow> nat option" where
  "findSub pat [] = (if pat = [] then Some 0 else None)"
| "findSub pat (c # cs) =
     (if take (length pat) (c # cs) = pat then Some 0 else map_option Suc (findSub pat cs))"

fun firstSome :: "('a \<Rightarrow> 'b option) \<Rightarrow> 'a list \<Rightarrow> 'b option" where
  "firstSome f [] = None"
| "firstSome f (x # xs) = (case f x of Some y \<Rightarrow> Some y | None \<Rightarrow> firstSome f xs)"

text \<open>
  \<open>/<([A-Z][a-zA-Z0-9]*)[^>]*>[\s\S]*?<\/\1>/g\<close>: the group takes the longest name first and
  gives letters back while no closing tag of that name follows; the lazy body stops at the
  first such closing tag.
\<close>

definition pairedBlock :: "bool \<Rightarrow> string \<Rightarrow> nat option" where
  "pairedBlock atStart s =
     (case s of
        lt # u # r \<Rightarrow>
          let pre = upToClose r;
              body = drop (Suc (length pre)) r;
              nameTail = takeWhile isAlnum r
          in if lt = CHR ''<'' \<and> isUpper u \<and> length pre < length r
             then firstSome
                    (\<lambda>t. let closer = ''</'' @ (u # take t nameTail) @ ''>''
                         in map_option (\<lambda>d. 2 + length pre + 1 + d + length closer)
                              (findSub closer body))
                    (rev [0 ..< Suc (length nameTail)])
             else None
      | _ \<Rightarrow> None)"

text \<open>\<open>/<\/?[A-Z][a-zA-Z0-9]*[^>]*>/g\<close>.\<close>

definition bareTag :: "bool \<Rightarrow> string \<Rightarrow> nat option" where
  "bareTag atStart s =
     (case s of
        [] \<Rightarrow> None
      | lt # r0 \<Rightarrow>
          let slash = (if r0 \<noteq> [] \<and> hd r0 = CHR ''/'' then 1 else 0)
          in (case drop slash r0 of
                [] \<Rightarrow> None
              | u # r \<Rightarrow>
                  let pre = upToClose r
                  in if lt = CHR ''<'' \<and> isUpper u \<and> length pre < length r
                     then Some (1 + slash + 1 + length pre + 1) else None))"

text \<open>\<open>/\n{3,}/g\<close>.\<close>

definition blankRun :: "bool \<Rightarrow> string \<Rightarrow> nat option" where
  "blankRun atStart s =
     (let run = takeWhile (\<lambda>x. x = CHR 0x0A) s
      in if 3 \<le> length run then Some (length run) else None)"

definition stripMdxComponents :: "string \<Rightarrow> string" where
  "stripMdxComponents content0 =
     (let result = replaceAll (declarationLine ''import'') [] True content0;
          result = replaceAll (declarationLine ''export'') [] True result;
          result = replaceAll selfClosingTag [] True result;
          result = replaceAll pairedBlock [] True result;
          result = replaceAll bareTag [] True result;
          result = replaceAll blankRun [CHR 0x0A, CHR 0x0A] True result
      in trim result)"

section \<open>Sections and chunks\<close>

record Chunk =
  content :: string
  index :: int
  lineStart :: int
  lineEnd :: int
  heading :: "string option"

record ChunkingOptions =
  maxChunkSize :: int
  chunkOverlap :: int
  respectHeadings :: bool

definition DEFAULT_OPTIONS :: ChunkingOptions where
  "DEFAULT_OPTIONS = \<lparr>maxChunkSize = 1000, chunkOverlap = 100, respectHeadings = True\<rparr>"

text \<open>
  The interface \<open>Section\<close> of the source; its fields carry the prefix \<open>s\<close> here, the plain
  names being those of \<^typ>\<open>Chunk\<close>.
\<close>

record Section =
  sHeading :: "string option"
  sHeadingLevel :: nat
  sContent :: string
  sLineStart :: int
  sLineEnd :: int

text \<open>
  \<open>line.match(/^(#{1,6})\s+(.+)$/)\<close> on one line, without the flag \<open>m\<close>: the text must run
  to the end of the line with no line terminator in it. The answer is the pair of the two
  groups.
\<close>

definition headingMatch :: "string \<Rightarrow> (string \<times> string) option" where
  "headingMatch line =
     (let hashes = takeWhile (\<lambda>c. c = CHR ''#'') line;
          r = dropWhile (\<lambda>c. c = CHR ''#'') line;
          ws = takeWhile isWhiteSpace r;
          rest = dropWhile isWhiteSpace r
      in if hashes = [] \<or> 6 < length hashes \<or> ws = [] then None
         else if rest \<noteq> []
              then (if list_all notLineTerminator rest then Some (hashes, rest) else None)
              else map_option (Pair hashes)
                     (find (list_all notLineTerminator)
                        (map (\<lambda>k. drop k ws) (rev [1 ..< length ws]))))"

definition closeSection :: "Section list \<Rightarrow> Section \<Rightarrow> int \<Rightarrow> Section list" where
  "closeSection sections currentSection currentLineNumber =
     (if trim (sContent currentSection) \<noteq> []
      then sections @ [currentSection\<lparr>sLineEnd := currentLineNumber - 1\<rparr>]
      else sections)"

fun parseLines :: "string list \<Rightarrow> Section list \<Rightarrow> Section \<Rightarrow> int \<Rightarrow> Section list" where
  "parseLines [] sections currentSection currentLineNumber =
     closeSection sections currentSection currentLineNumber"
| "parseLines (line # lines) sections currentSection currentLineNumber =
     (case headingMatch line of
        Some (hashes, text) \<Rightarrow>
          parseLines lines (closeSection sections currentSection currentLineNumber)
            \<lparr>sHeading = Some (trim text), sHeadingLevel = length hashes,
             sContent = line @ [CHR 0x0A],
             sLineStart = currentLineNumber, sLineEnd = currentLineNumber\<rparr>
            (currentLineNumber + 1)
      | None \<Rightarrow>
          parseLines lines sections
            (currentSection\<lparr>sContent := sContent currentSection @ line @ [CHR 0x0A]\<rparr>)
            (currentLineNumber + 1))"

definition parseIntoSections :: "string \<Rightarrow> Section list" where
  "parseIntoSections content0 =
     parseLines (splitOn (CHR 0x0A) content0) []
       \<lparr>sHeading = None, sHeadingLevel = 0, sContent = [], sLineStart = 1, sLineEnd = 1\<rparr> 1"

text \<open>
  The loop of \<open>splitSection\<close> over the paragraphs. Its state is the source's: the chunks
  pushed so far, \<open>currentChunk\<close>, \<open>chunkStart\<close>, \<open>currentLine\<close> and \<open>chunkIndex\<close>. A
  non-empty string is truthy.
\<close>

fun splitLoop ::
  "Section \<Rightarrow> int \<Rightarrow> int \<Rightarrow> string list \<Rightarrow> Chunk list \<Rightarrow> string \<Rightarrow> int \<Rightarrow> int \<Rightarrow> int
     \<Rightarrow> Chunk list" where
  "splitLoop sec maxSize overlap [] chunks currentChunk chunkStart currentLine chunkIndex =
     (if trim currentChunk \<noteq> []
      then chunks @ [\<lparr>content = trim currentChunk, index = chunkIndex,
                      lineStart = chunkStart, lineEnd = sLineEnd sec, heading = sHeading sec\<rparr>]
      else chunks)"
| "splitLoop sec maxSize overlap (paragraph # rest) chunks currentChunk chunkStart currentLine
      chunkIndex =
     (let paragraphLines = int (length (splitOn (CHR 0x0A) paragraph))
      in if int (length currentChunk) + int (length paragraph) + 2 > maxSize
            \<and> currentChunk \<noteq> []
         then splitLoop sec maxSize overlap rest
                (chunks @ [\<lparr>content = trim currentChunk, index = chunkIndex,
                             lineStart = chunkStart, lineEnd = currentLine - 1,
                             heading = sHeading sec\<rparr>])
                (sliceFrom (- overlap) currentChunk @ [CHR 0x0A, CHR 0x0A] @ paragraph)
                currentLine (currentLine + paragraphLines + 1) (chunkIndex + 1)
         else splitLoop sec maxSize overlap rest chunks
                (if currentChunk \<noteq> [] then currentChunk @ [CHR 0x0A, CHR 0x0A] @ paragraph
                 else paragraph)
                chunkStart (currentLine + paragraphLines + 1) chunkIndex)"

definition splitSection :: "Section \<Rightarrow> int \<Rightarrow> int \<Rightarrow> Chunk list" where
  "splitSection sec maxSize overlap =
     (let content0 = trim (sContent sec)
      in if int (length content0) \<le> maxSize
         then [\<lparr>content = content0, index = 0, lineStart = sLineStart sec,
                 lineEnd = sLineEnd sec, heading = sHeading sec\<rparr>]
         else splitLoop sec maxSize overlap (splitParagraphs [] content0) [] []
                (sLineStart sec) (sLineStart sec) 0)"

text \<open>The two nested loops of the heading path, with the counter \<open>globalIndex\<close>.\<close>

fun pushChunks :: "Chunk list \<Rightarrow> Chunk list \<times> int \<Rightarrow> Chunk list \<times> int" where
  "pushChunks [] (allChunks, globalIndex) = (allChunks, globalIndex)"
| "pushChunks (chunk # sectionChunks) (allChunks, globalIndex) =
     pushChunks sectionChunks (allChunks @ [chunk\<lparr>index := globalIndex\<rparr>], globalIndex + 1)"

fun chunkSections :: "Section list \<Rightarrow> int \<Rightarrow> int \<Rightarrow> Chunk list \<times> int \<Rightarrow> Chunk list \<times> int" where
  "chunkSections [] maxSize overlap st = st"
| "chunkSections (sec # sections) maxSize overlap st =
     chunkSections sections maxSize overlap (pushChunks (splitSection sec maxSize overlap) st)"

text \<open>The loop of the flat path over the lines.\<close>

fun flatLoop ::
  "int \<Rightarrow> int \<Rightarrow> string list \<Rightarrow> Chunk list \<Rightarrow> string \<Rightarrow> int \<Rightarrow> int \<Rightarrow> int \<Rightarrow> Chunk list" where
  "flatLoop maxSize overlap [] chunks currentChunk chunkStart currentLine chunkIndex =
     (if trim currentChunk \<noteq> []
      then chunks @ [\<lparr>content = trim currentChunk, index = chunkIndex,
                      lineStart = chunkStart, lineEnd = currentLine - 1, heading = None\<rparr>]
      else chunks)"
| "flatLoop maxSize overlap (line # rest) chunks currentChunk chunkStart currentLine chunkIndex =
     (if int (length currentChunk) + int (length line) + 1 > maxSize \<and> currentChunk \<noteq> []
      then flatLoop maxSize overlap rest
             (chunks @ [\<lparr>content = trim currentChunk, index = chunkIndex,
                          lineStart = chunkStart, lineEnd = currentLine - 1, heading = None\<rparr>])
             (sliceFrom (- overlap) currentChunk @ [CHR 0x0A] @ line)
             currentLine (currentLine + 1) (chunkIndex + 1)
      else flatLoop maxSize overlap rest chunks
             (currentChunk @ (if currentChunk \<noteq> [] then [CHR 0x0A] else []) @ line)
             chunkStart (currentLine + 1) chunkIndex)"

text \<open>
  \<open>chunkMarkdown(content, options)\<close>. The options are those after the merge
  \<open>{ ...DEFAULT_OPTIONS, ...options }\<close>; \<open>withDefaults\<close> is that merge for a partial
  record whose absent keys are \<open>None\<close>.
\<close>

definition withDefaults :: "int option \<Rightarrow> int option \<Rightarrow> bool option \<Rightarrow> ChunkingOptions" where
  "withDefaults m ov rh =
     \<lparr>maxChunkSize = (case m of Some v \<Rightarrow> v | None \<Rightarrow> maxChunkSize DEFAULT_OPTIONS),
      chunkOverlap = (case ov of Some v \<Rightarrow> v | None \<Rightarrow> chunkOverlap DEFAULT_OPTIONS),
      respectHeadings = (case rh of Some v \<Rightarrow> v | None \<Rightarrow> respectHeadings DEFAULT_OPTIONS)\<rparr>"

definition chunkMarkdown :: "string \<Rightarrow> ChunkingOptions \<Rightarrow> Chunk list" where
  "chunkMarkdown content0 opts =
     (let cleanContent = stripMdxComponents content0
      in if respectHeadings opts
         then fst (chunkSections (parseIntoSections cleanContent)
                     (maxChunkSize opts) (chunkOverlap opts) ([], 0))
         else flatLoop (maxChunkSize opts) (chunkOverlap opts)
                (splitOn (CHR 0x0A) cleanContent) [] [] 1 1 0)"

text \<open>
  The units the splitter never breaks: the paragraphs of the sections on the heading path,
  the lines on the flat path; and the separator the splitter puts before a unit.
\<close>

definition chunkUnits :: "string \<Rightarrow> ChunkingOptions \<Rightarrow> string list" where
  "chunkUnits content0 opts =
     (let cleanContent = stripMdxComponents content0
      in if respectHeadings opts
         then concat (map (\<lambda>sec. splitParagraphs [] (trim (sContent sec)))
                        (parseIntoSections cleanContent))
         else splitOn (CHR 0x0A) cleanContent)"

definition unitSeparator :: "ChunkingOptions \<Rightarrow> string" where
  "unitSeparator opts = (if respectHeadings opts then [CHR 0x0A, CHR 0x0A] else [CHR 0x0A])"

text \<open>
  A buffer of the splitter is in order when it is within the limit, or is one unit, or is
  one unit after at most \<open>overlap\<close> code units of overlap text and the separator.
\<close>

definition unitBuffer :: "int \<Rightarrow> string \<Rightarrow> string set \<Rightarrow> string \<Rightarrow> bool" where
  "unitBuffer overlap sep units b \<longleftrightarrow>
     (\<exists>u \<in> units. b = u \<or> (\<exists>ov. int (length ov) \<le> overlap \<and> b = ov @ sep @ u))"

definition boundedBuffer :: "int \<Rightarrow> int \<Rightarrow> string \<Rightarrow> string set \<Rightarrow> string \<Rightarrow> bool" where
  "boundedBuffer maxSize overlap sep units b \<longleftrightarrow>
     int (length b) \<le> maxSize \<or> unitBuffer overlap sep units b"

text \<open>A chunk is cut from a buffer in order when its content is the trimmed buffer.\<close>

definition fromBuffer :: "int \<Rightarrow> int \<Rightarrow> string \<Rightarrow> string set \<Rightarrow> Chunk \<Rightarrow> bool" where
  "fromBuffer maxSize overlap sep units c \<longleftrightarrow>
     (\<exists>b. boundedBuffer maxSize overlap sep units b \<and> content c = trim b)"

section \<open>The vector store\<close>

text \<open>
  The tables of the schema as lists of rows in insertion order, the columns under their SQL
  names with the table as prefix. The modification time, which is only stored, is
  \<^typ>\<open>real\<close>; row ids are \<^typ>\<open>int\<close>; a stored vector is the blob of bytes handed to the
  table. The two counters are the \<open>sqlite_sequence\<close> entries of the \<open>AUTOINCREMENT\<close>
  keys. The reading of the clock by \<open>unixepoch()\<close> is an argument of the operation that
  uses it.

  The schema declares \<open>chunks.document_id\<close> a foreign key into \<open>documents\<close>. Whether the
  engine enforces it is a setting of the database driver, which the source leaves at the
  driver's default (enforcement); the store carries the setting as the flag
  \<open>foreignKeys\<close>.
\<close>

record DocumentMetadata =
  filePath :: string
  title :: string
  lastModified :: real
  fileHash :: string

record DocumentRow =
  doc_id :: int
  doc_file_path :: string
  doc_title :: string
  doc_last_modified :: real
  doc_file_hash :: string
  doc_created_at :: int
  doc_updated_at :: int

text \<open>
  The interface \<open>ChunkData\<close> (without its unused optional \<open>id\<close>), the fields under the
  prefix \<open>cd\<close>.
\<close>

record ChunkData =
  cdDocumentId :: int
  cdContent :: string
  cdChunkIndex :: int
  cdLineStart :: int
  cdLineEnd :: int
  cdHeading :: "string option"

record ChunkRow =
  chunk_id :: int
  chunk_document_id :: int
  chunk_content :: string
  chunk_chunk_index :: int
  chunk_line_start :: int
  chunk_line_end :: int
  chunk_heading :: "string option"

text \<open>
  A \<open>Float32Array\<close> is a view of \<open>length\<close> four-byte elements, from \<open>byteOffset\<close> on, of an
  underlying \<open>ArrayBuffer\<close>, which may be longer than the view. \<open>new Float32Array(values)\<close>
  allocates a buffer of its own, which the view spans.
\<close>

type_synonym byte = "8 word"

record Float32Array =
  faBuffer :: "byte list"
  faByteOffset :: nat
  faLength :: nat

definition newFloat32Array :: "byte list \<Rightarrow> Float32Array" where
  "newFloat32Array bytes = \<lparr>faBuffer = bytes, faByteOffset = 0, faLength = length bytes div 4\<rparr>"

definition ownBuffer :: "Float32Array \<Rightarrow> bool" where
  "ownBuffer a \<longleftrightarrow> faByteOffset a = 0 \<and> length (faBuffer a) = 4 * faLength a"

text \<open>The bytes of the elements of the view.\<close>

definition viewBytes :: "Float32Array \<Rightarrow> byte list" where
  "viewBytes a = take (4 * faLength a) (drop (faByteOffset a) (faBuffer a))"

text \<open>
  \<open>Buffer.from(embedding.buffer)\<close>: the bytes of the whole underlying buffer, whatever the
  offset and the length of the view.
\<close>

definition bufferFrom :: "Float32Array \<Rightarrow> byte list" where
  "bufferFrom a = faBuffer a"

record EmbeddingRow =
  emb_chunk_id :: int
  emb_embedding :: "byte list"

record VectorDatabase =
  embeddingDimension :: nat
  foreignKeys :: bool
  documents :: "DocumentRow list"
  chunks :: "ChunkRow list"
  embeddings :: "EmbeddingRow list"
  documents_seq :: int
  chunks_seq :: int

text \<open>The store the constructor leaves on a fresh file.\<close>

definition emptyStore :: "bool \<Rightarrow> nat \<Rightarrow> VectorDatabase" where
  "emptyStore enforced dimension =
     \<lparr>embeddingDimension = dimension, foreignKeys = enforced, documents = [],
      chunks = [], embeddings = [], documents_seq = 0, chunks_seq = 0\<rparr>"

text \<open>
  The row id an \<open>AUTOINCREMENT\<close> key gives to an insert: one more than the largest id the
  table has ever held.
\<close>

definition nextRowid :: "int \<Rightarrow> int list \<Rightarrow> int" where
  "nextRowid seq ids = fold max ids seq + 1"

datatype StoreError = DimensionMismatch | UniqueConstraint | ForeignKeyConstraint

text \<open>
  Modelled from the spec: the insert into the \<open>vec0\<close> virtual table
  \<open>embeddings(chunk_id INTEGER PRIMARY KEY, embedding float[dimension])\<close> of the sqlite-vec
  extension, which is not part of the repository. It is given the vector as a blob and
  fails when the blob is not one of \<open>dimension\<close> four-byte elements, the fixed dimension
  of the index, and on a key that is already there; otherwise the row is stored as given.
\<close>

definition vec0_insert ::
  "nat \<Rightarrow> EmbeddingRow list \<Rightarrow> int \<Rightarrow> byte list \<Rightarrow> StoreError + EmbeddingRow list" where
  "vec0_insert dimension rows chunkId blob =
     (if length blob \<noteq> 4 * dimension then Inl DimensionMismatch
      else if chunkId \<in> emb_chunk_id ` set rows then Inl UniqueConstraint
      else Inr (rows @ [\<lparr>emb_chunk_id = chunkId, emb_embedding = blob\<rparr>]))"

definition upsertDocument :: "DocumentMetadata \<Rightarrow> int \<Rightarrow> VectorDatabase \<Rightarrow> int \<times> VectorDatabase" where
  "upsertDocument meta now db =
     (case find (\<lambda>d. doc_file_path d = filePath meta) (documents db) of
        Some existing \<Rightarrow>
          (doc_id existing,
           db\<lparr>documents :=
                map (\<lambda>d. if doc_id d = doc_id existing
                          then d\<lparr>doc_title := title meta,
                                 doc_last_modified := lastModified meta,
                                 doc_file_hash := fileHash meta,
                                 doc_updated_at := now\<rparr>
                          else d)
                    (documents db)\<rparr>)
      | None \<Rightarrow>
          (let newId = nextRowid (documents_seq db) (map doc_id (documents db))
           in (newId,
               db\<lparr>documents := documents db @
                      [\<lparr>doc_id = newId, doc_file_path = filePath meta,
                        doc_title = title meta, doc_last_modified = lastModified meta,
                        doc_file_hash = fileHash meta,
                        doc_created_at = now, doc_updated_at = now\<rparr>],
                  documents_seq := newId\<rparr>)))"

definition documentNeedsUpdate :: "string \<Rightarrow> string \<Rightarrow> VectorDatabase \<Rightarrow> bool" where
  "documentNeedsUpdate path hash db =
     (case find (\<lambda>d. doc_file_path d = path) (documents db) of
        None \<Rightarrow> True
      | Some existing \<Rightarrow> doc_file_hash existing \<noteq> hash)"

definition getDocumentByPath :: "string \<Rightarrow> VectorDatabase \<Rightarrow> DocumentRow option" where
  "getDocumentByPath path db = find (\<lambda>d. doc_file_path d = path) (documents db)"

definition getAllDocuments :: "VectorDatabase \<Rightarrow> DocumentRow list" where
  "getAllDocuments db = documents db"

text \<open>
  \<open>deleteDocumentChunks\<close>: the ids of the document's chunks are read, one \<open>DELETE\<close> per id
  runs on the embeddings, then one \<open>DELETE\<close> on the chunks.
\<close>

definition deleteDocumentChunks :: "int \<Rightarrow> VectorDatabase \<Rightarrow> VectorDatabase" where
  "deleteDocumentChunks documentId db =
     (let chunkIds = map chunk_id (filter (\<lambda>c. chunk_document_id c = documentId) (chunks db));
          rows = fold (\<lambda>i es. filter (\<lambda>e. emb_chunk_id e \<noteq> i) es) chunkIds (embeddings db)
      in db\<lparr>embeddings := rows,
            chunks := filter (\<lambda>c. chunk_document_id c \<noteq> documentId) (chunks db)\<rparr>)"

text \<open>
  \<open>addChunk\<close>: two statements, each committed on its own. The answer is the chunk id or
  the error thrown, beside the store as the call leaves it. Where the foreign key is
  enforced, the first statement fails for a document id the store does not have, and
  writes nothing. The blob handed to the table is \<open>Buffer.from(embedding.buffer)\<close>.
\<close>

definition addChunk ::
  "ChunkData \<Rightarrow> Float32Array \<Rightarrow> VectorDatabase \<Rightarrow> (StoreError + int) \<times> VectorDatabase" where
  "addChunk chunk embedding db =
     (if foreignKeys db \<and> cdDocumentId chunk \<notin> doc_id ` set (documents db)
      then (Inl ForeignKeyConstraint, db) else
      let chunkId = nextRowid (chunks_seq db) (map chunk_id (chunks db));
          db1 = db\<lparr>chunks := chunks db @
                        [\<lparr>chunk_id = chunkId, chunk_document_id = cdDocumentId chunk,
                          chunk_content = cdContent chunk,
                          chunk_chunk_index = cdChunkIndex chunk,
                          chunk_line_start = cdLineStart chunk,
                          chunk_line_end = cdLineEnd chunk,
                          chunk_heading = cdHeading chunk\<rparr>],
                   chunks_seq := chunkId\<rparr>
      in case vec0_insert (embeddingDimension db1) (embeddings db1) chunkId
                (bufferFrom embedding) of
           Inl err \<Rightarrow> (Inl err, db1)
         | Inr rows \<Rightarrow> (Inr chunkId, db1\<lparr>embeddings := rows\<rparr>))"

record Stats =
  statDocuments :: nat
  statChunks :: nat
  statEmbeddings :: nat

definition getStats :: "VectorDatabase \<Rightarrow> Stats" where
  "getStats db =
     \<lparr>statDocuments = length (documents db), statChunks = length (chunks db),
      statEmbeddings = length (embeddings db)\<rparr>"

text \<open>
  A history of the store: the calls that change it, in order. A call that throws is caught
  by its caller (the commands count the error and go on), so the history continues from the
  store the failing call left.
\<close>

datatype StoreOp =
    UpsertDocument DocumentMetadata int
  | AddChunk ChunkData Float32Array
  | DeleteDocumentChunks int

fun applyOp :: "StoreOp \<Rightarrow> VectorDatabase \<Rightarrow> VectorDatabase" where
  "applyOp (UpsertDocument meta now) db = snd (upsertDocument meta now db)"
| "applyOp (AddChunk chunk embedding) db = snd (addChunk chunk embedding db)"
| "applyOp (DeleteDocumentChunks documentId) db = deleteDocumentChunks documentId db"

definition runOps :: "StoreOp list \<Rightarrow> VectorDatabase \<Rightarrow> VectorDatabase" where
  "runOps ops db = fold applyOp ops db"

text \<open>
  An \<open>addChunk\<close> call whose vector has the dimension of the store: the buffer under the
  view is one of \<open>dimension\<close> four-byte elements. For a vector that spans its buffer that
  is to say that its length is the dimension.
\<close>

fun fitsDimension :: "nat \<Rightarrow> StoreOp \<Rightarrow> bool" where
  "fitsDimension dimension (AddChunk chunk embedding) =
     (length (faBuffer embedding) = 4 * dimension)"
| "fitsDimension dimension _ = True"

text \<open>
  What every store reached from the empty one satisfies: the chunk ids are distinct, and no
  id of either table is above the counter.
\<close>

definition storeInv :: "VectorDatabase \<Rightarrow> bool" where
  "storeInv db \<longleftrightarrow>
     distinct (map chunk_id (chunks db))
     \<and> list_all (\<lambda>c. chunk_id c \<le> chunks_seq db) (chunks db)
     \<and> list_all (\<lambda>e. emb_chunk_id e \<le> chunks_seq db) (embeddings db)"

text \<open>The rows of the two tables are paired: the same chunk ids, in the same order.\<close>

definition pairedRows :: "VectorDatabase \<Rightarrow> bool" where
  "pairedRows db \<longleftrightarrow> map chunk_id (chunks db) = map emb_chunk_id (embeddings db)"

text \<open>
  The first loop of \<open>updateCommand\<close>: the documents whose path is no longer among the
  files found have their chunks deleted. The state of the loop is the store and the
  counter \<open>deleted\<close>; no statement of \<open>deleteDocumentChunks\<close> fails on the tables of
  the model, so the \<open>catch\<close> branch with its counter \<open>errors\<close> is not entered.
\<close>

definition removedDocuments :: "DocumentRow list \<Rightarrow> string list \<Rightarrow> DocumentRow list" where
  "removedDocuments existingDocs files =
     filter (\<lambda>d. doc_file_path d \<notin> set files) existingDocs"

fun deleteLoop :: "DocumentRow list \<Rightarrow> VectorDatabase \<times> nat \<Rightarrow> VectorDatabase \<times> nat" where
  "deleteLoop [] st = st"
| "deleteLoop (doc # toDelete) (db, deleted) =
     deleteLoop toDelete (deleteDocumentChunks (doc_id doc) db, deleted + 1)"

definition deleteRemoved :: "string list \<Rightarrow> VectorDatabase \<Rightarrow> VectorDatabase \<times> nat" where
  "deleteRemoved files db =
     deleteLoop (removedDocuments (getAllDocuments db) files) (db, 0)"

section \<open>The numbers of the score\<close>

text \<open>
  A JavaScript number is an IEEE 754 double, and an arithmetic operation on doubles gives
  the exact result rounded to the nearest double, a tie going to the double whose
  significand is even; a rounded magnitude of 2 to the power 1024 or more is an
  infinity. The numbers here are the reals, of which the doubles are some, and the two
  infinities. NaN and the sign of a zero are left out: the search meets neither on
  distances that are numbers and not negative.
\<close>

datatype JsNumber = Fin real | Infinity | NegInfinity

text \<open>\<open>a <= b\<close>.\<close>

fun jsLe :: "JsNumber \<Rightarrow> JsNumber \<Rightarrow> bool" where
  "jsLe NegInfinity b = True"
| "jsLe a Infinity = True"
| "jsLe (Fin a) (Fin b) = (a \<le> b)"
| "jsLe a b = False"

text \<open>The nearest integer, a tie going to the even one.\<close>

definition roundHalfEven :: "real \<Rightarrow> int" where
  "roundHalfEven t =
     (let f = \<lfloor>t\<rfloor>; r = t - of_int f
      in if r < 1 / 2 then f else if 1 / 2 < r then f + 1
         else if even f then f else f + 1)"

text \<open>
  The spacing of the doubles around a positive number: with 53 bits of significand, 2 to
  the power \<open>e - 52\<close> for a number of binary exponent \<open>e\<close>, and for every number below the
  smallest normal one, of exponent \<open>-1022\<close>, the spacing of the subnormal numbers.
\<close>

definition doubleQuantum :: "real \<Rightarrow> real" where
  "doubleQuantum x = 2 powr (of_int (max \<lfloor>log 2 x\<rfloor> (- 1022)) - 52)"

text \<open>A positive number rounded to the nearest multiple of its spacing.\<close>

definition roundMagnitude :: "real \<Rightarrow> real" where
  "roundMagnitude x = of_int (roundHalfEven (x / doubleQuantum x)) * doubleQuantum x"

text \<open>The double an exact result is rounded to.\<close>

definition roundDouble :: "real \<Rightarrow> JsNumber" where
  "roundDouble x =
     (if x = 0 then Fin 0
      else let r = roundMagnitude \<bar>x\<bar>
           in if 2 powr 1024 \<le> r then (if 0 < x then Infinity else NegInfinity)
              else Fin (sgn x * r))"

text \<open>\<open>Number.MAX_VALUE\<close>, the largest double.\<close>

definition MAX_VALUE :: real where
  "MAX_VALUE = (2 ^ 53 - 1) * 2 ^ 971"

text \<open>\<open>1 + x\<close> and \<open>1 / x\<close>.\<close>

fun jsOnePlus :: "JsNumber \<Rightarrow> JsNumber" where
  "jsOnePlus (Fin d) = roundDouble (1 + d)"
| "jsOnePlus Infinity = Infinity"
| "jsOnePlus NegInfinity = NegInfinity"

fun jsOneOver :: "JsNumber \<Rightarrow> JsNumber" where
  "jsOneOver (Fin y) = (if y = 0 then Infinity else roundDouble (1 / y))"
| "jsOneOver Infinity = Fin 0"
| "jsOneOver NegInfinity = Fin 0"

text \<open>The expression \<open>1 / (1 + row.distance)\<close> of \<open>search\<close>.\<close>

definition jsScore :: "JsNumber \<Rightarrow> JsNumber" where
  "jsScore d = jsOneOver (jsOnePlus d)"

text \<open>
  The two roundings of that expression written out for a distance that is a real, the
  sum having overflowed or not. For a distance that is not negative this is the number
  \<open>jsScore\<close> gives.
\<close>

definition scoreValue :: "real \<Rightarrow> real" where
  "scoreValue d =
     (if 2 powr 1024 \<le> roundMagnitude (1 + d) then 0
      else roundMagnitude (1 / roundMagnitude (1 + d)))"

text \<open>A distance that is a double and not negative.\<close>

fun finiteDistance :: "JsNumber \<Rightarrow> bool" where
  "finiteDistance (Fin d) = (0 \<le> d \<and> d \<le> MAX_VALUE)"
| "finiteDistance _ = False"

section \<open>Searching the store\<close>

text \<open>
  A row of the KNN query on the table \<open>embeddings\<close>: the key and the hidden column
  \<open>distance\<close>.
\<close>

record KnnRow =
  knn_chunk_id :: int
  knn_distance :: JsNumber

text \<open>
  \<open>ORDER BY\<close> a numeric column, ascending: an insertion sort, which keeps rows of equal
  key in the order they came in.
\<close>

fun insertBy :: "('a \<Rightarrow> JsNumber) \<Rightarrow> 'a \<Rightarrow> 'a list \<Rightarrow> 'a list" where
  "insertBy key x [] = [x]"
| "insertBy key x (y # ys) =
     (if jsLe (key x) (key y) then x # y # ys else y # insertBy key x ys)"

definition orderBy :: "('a \<Rightarrow> JsNumber) \<Rightarrow> 'a list \<Rightarrow> 'a list" where
  "orderBy key rows = foldr (insertBy key) rows []"

text \<open>
  Modelled from the spec: the KNN query \<open>embedding MATCH ? AND k = ?\<close> on the \<open>vec0\<close>
  virtual table of the sqlite-vec extension, which is not part of the repository. It
  computes a distance metric between the query vector and every stored embedding and
  returns the \<open>k\<close> closest, ascending by distance; it fails if the length of the query
  vector is not the configured dimension. The metric, which the specification leaves
  open, is an argument. The query vector is given as a blob, and its length is the
  length of the blob.
\<close>

definition vec0_knn ::
  "(byte list \<Rightarrow> byte list \<Rightarrow> JsNumber) \<Rightarrow> nat \<Rightarrow> EmbeddingRow list \<Rightarrow> byte list \<Rightarrow> nat
     \<Rightarrow> StoreError + KnnRow list" where
  "vec0_knn metric dimension rows blob k =
     (if length blob \<noteq> 4 * dimension then Inl DimensionMismatch
      else Inr (take k (orderBy knn_distance
             (map (\<lambda>e. \<lparr>knn_chunk_id = emb_chunk_id e,
                         knn_distance = metric blob (emb_embedding e)\<rparr>) rows))))"

text \<open>
  The two joins of the query, \<open>JOIN chunks c ON c.id = e.chunk_id\<close> and
  \<open>JOIN documents d ON d.id = c.document_id\<close>: a row for every chunk of the key of a KNN
  row and every document of that chunk.
\<close>

definition joinRows ::
  "KnnRow list \<Rightarrow> ChunkRow list \<Rightarrow> DocumentRow list
     \<Rightarrow> (KnnRow \<times> ChunkRow \<times> DocumentRow) list" where
  "joinRows es cs ds =
     concat (map (\<lambda>e.
       concat (map (\<lambda>c.
         map (\<lambda>d. (e, c, d)) (filter (\<lambda>d. doc_id d = chunk_document_id c) ds))
         (filter (\<lambda>c. chunk_id c = knn_chunk_id e) cs))) es)"

text \<open>The interface \<open>SearchResult\<close>, the fields under the prefix \<open>sr\<close>.\<close>

record SearchResult =
  srChunkId :: int
  srDocumentId :: int
  srFilePath :: string
  srContent :: string
  srLineStart :: int
  srLineEnd :: int
  srHeading :: "string option"
  srDistance :: JsNumber
  srScore :: JsNumber

text \<open>The function \<open>search\<close> maps over the rows of the query.\<close>

definition resultRow :: "KnnRow \<times> ChunkRow \<times> DocumentRow \<Rightarrow> SearchResult" where
  "resultRow row =
     (case row of (e, c, d) \<Rightarrow>
        \<lparr>srChunkId = knn_chunk_id e, srDocumentId = chunk_document_id c,
          srFilePath = doc_file_path d, srContent = chunk_content c,
          srLineStart = chunk_line_start c, srLineEnd = chunk_line_end c,
          srHeading = chunk_heading c, srDistance = knn_distance e,
          srScore = jsScore (knn_distance e)\<rparr>)"

text \<open>
  \<open>search\<close>: the blob handed to the query is \<open>Buffer.from(queryEmbedding.buffer)\<close>; the
  limit, a count here, is 5 when the caller gives none. The answer is the list of results
  or the error thrown.
\<close>

definition search ::
  "(byte list \<Rightarrow> byte list \<Rightarrow> JsNumber) \<Rightarrow> Float32Array \<Rightarrow> nat option \<Rightarrow> VectorDatabase
     \<Rightarrow> StoreError + SearchResult list" where
  "search metric queryEmbedding limit db =
     (let queryBuffer = bufferFrom queryEmbedding;
          k = (case limit of None \<Rightarrow> 5 | Some n \<Rightarrow> n)
      in case vec0_knn metric (embeddingDimension db) (embeddings db) queryBuffer k of
           Inl err \<Rightarrow> Inl err
         | Inr nearest \<Rightarrow>
             Inr (map resultRow
                    (orderBy (\<lambda>(e, c, d). knn_distance e)
                       (joinRows nearest (chunks db) (documents db)))))"

text \<open>
  Modelled from the spec: a distance metric, for the examples. It is the Euclidean
  distance of the two vectors, the metric of a \<open>vec0\<close> column declared without one, the
  blobs read as little-endian single-precision numbers (zero, subnormal or normal: the
  exponent 255 of the infinities and NaN is not told apart). The distance is computed
  exactly, where the extension rounds each step to single precision.
\<close>

definition leBits :: "byte list \<Rightarrow> nat" where
  "leBits bs = foldr (\<lambda>b n. unat b + 256 * n) bs 0"

definition float32 :: "byte list \<Rightarrow> real" where
  "float32 bs =
     (let bits = leBits bs; e = bits div 2 ^ 23 mod 256; m = bits mod 2 ^ 23;
          magnitude = (if e = 0 then real m * 2 powr (- 149)
                       else real (2 ^ 23 + m) * 2 powr (real e - 150))
      in if bits div 2 ^ 31 = 0 then magnitude else - magnitude)"

fun elements :: "byte list \<Rightarrow> real list" where
  "elements (a # b # c # d # rest) = float32 [a, b, c, d] # elements rest"
| "elements _ = []"

definition distance_l2 :: "byte list \<Rightarrow> byte list \<Rightarrow> JsNumber" where
  "distance_l2 q v =
     Fin (sqrt (sum_list (map (\<lambda>(a, b). (a - b)\<^sup>2) (zip (elements q) (elements v)))))"

section \<open>Reading a file through the tool surface\<close>

text \<open>
  Modelled from the spec: the POSIX functions \<open>path.join\<close> and \<open>path.resolve\<close> of the
  platform library, which are not part of the repository. A path is cut at \<open>/\<close>; empty
  segments and \<open>.\<close> are dropped, \<open>..\<close> removes the segment before it, and above the top
  of a relative path \<open>..\<close> is kept while above the root it is dropped. Neither function
  looks at the file system. The working directory, which \<open>path.resolve\<close> puts before a
  relative path, is an argument.
\<close>

fun normalizeSegments :: "bool \<Rightarrow> string list \<Rightarrow> string list \<Rightarrow> string list" where
  "normalizeSegments allowAboveRoot res [] = rev res"
| "normalizeSegments allowAboveRoot res (seg # segs) =
     (if seg = [] \<or> seg = ''.'' then normalizeSegments allowAboveRoot res segs
      else if seg = ''..''
      then (case res of
              [] \<Rightarrow> normalizeSegments allowAboveRoot
                      (if allowAboveRoot then [''..''] else []) segs
            | lastSeg # below \<Rightarrow>
                if lastSeg = ''..''
                then normalizeSegments allowAboveRoot
                       (if allowAboveRoot then ''..'' # res else res) segs
                else normalizeSegments allowAboveRoot below segs)
      else normalizeSegments allowAboveRoot (seg # res) segs)"

fun joinWith :: "string \<Rightarrow> string list \<Rightarrow> string" where
  "joinWith sep [] = []"
| "joinWith sep [x] = x"
| "joinWith sep (x # y # ys) = x @ sep @ joinWith sep (y # ys)"

definition normalizeString :: "string \<Rightarrow> bool \<Rightarrow> string" where
  "normalizeString path allowAboveRoot =
     joinWith ''/'' (normalizeSegments allowAboveRoot [] (splitOn (CHR ''/'') path))"

definition normalize :: "string \<Rightarrow> string" where
  "normalize path =
     (if path = [] then ''.''
      else let isAbsolute = (hd path = CHR ''/'');
               trailingSeparator = (last path = CHR ''/'');
               p = normalizeString path (\<not> isAbsolute)
           in if p = []
              then (if isAbsolute then ''/'' else if trailingSeparator then ''./'' else ''.'')
              else (if isAbsolute then ''/'' else []) @ p
                   @ (if trailingSeparator then ''/'' else []))"

definition pathJoin :: "string \<Rightarrow> string \<Rightarrow> string" where
  "pathJoin a b =
     (let parts = filter (\<lambda>x. x \<noteq> []) [a, b]
      in if parts = [] then ''.'' else normalize (joinWith ''/'' parts))"

definition pathResolve :: "string \<Rightarrow> string \<Rightarrow> string" where
  "pathResolve cwd path =
     (let own = (if path = [] then [] else path @ ''/'');
          ownAbsolute = (path \<noteq> [] \<and> hd path = CHR ''/'');
          resolvedPath = (if ownAbsolute \<or> cwd = [] then own else cwd @ ''/'' @ own);
          resolvedAbsolute = (ownAbsolute \<or> (cwd \<noteq> [] \<and> hd cwd = CHR ''/''));
          n = normalizeString resolvedPath (\<not> resolvedAbsolute)
      in if resolvedAbsolute then ''/'' @ n else if n \<noteq> [] then n else ''.'')"

text \<open>\<open>a.startsWith(b)\<close>.\<close>

definition startsWith :: "string \<Rightarrow> string \<Rightarrow> bool" where
  "startsWith a b \<longleftrightarrow> take (length b) a = b"

text \<open>
  The file system as \<open>handleReadFile\<close> meets it: what is at an absolute path, if anything.
  Reading a directory throws, which the handler catches.
\<close>

datatype FsEntry = File string | Directory

record CallToolResult =
  resultText :: string
  isError :: bool

definition handleReadFile ::
  "string \<Rightarrow> string \<Rightarrow> (string \<Rightarrow> FsEntry option) \<Rightarrow> string \<Rightarrow> CallToolResult" where
  "handleReadFile docsPath cwd fs file_path =
     (let fullPath = pathJoin docsPath file_path;
          resolvedPath = pathResolve cwd fullPath;
          resolvedDocsPath = pathResolve cwd docsPath
      in if \<not> startsWith resolvedPath resolvedDocsPath
         then \<lparr>resultText = ''Access denied: File path must be within documentation directory'',
               isError = True\<rparr>
         else (case fs resolvedPath of
                 None \<Rightarrow> \<lparr>resultText = ''File not found: '' @ file_path, isError = True\<rparr>
               | Some Directory \<Rightarrow>
                   \<lparr>resultText = ''Failed to read file: EISDIR: illegal operation on a directory, read'',
                    isError = True\<rparr>
               | Some (File content0) \<Rightarrow>
                   \<lparr>resultText = ''# '' @ file_path @ [CHR 0x0A, CHR 0x0A] @ content0,
                    isError = False\<rparr>))"

text \<open>
  A resolved path is inside the root when it is the root or lies below it: the root, a
  separator, and more.
\<close>

definition insideRoot :: "string \<Rightarrow> string \<Rightarrow> bool" where
  "insideRoot rootDir path \<longleftrightarrow>
     path = rootDir \<or> startsWith path (if rootDir = ''/'' then rootDir else rootDir @ ''/'')"

section \<open>Example data\<close>

text \<open>
  A store of two documents with one chunk each, as \<open>upsertDocument\<close> and \<open>addChunk\<close>
  leave it on the empty store of dimension 2 with the foreign key enforced. The vectors
  are \<open>[1, 0]\<close> and \<open>[0, 1]\<close>, the float 1 being the bytes 0, 0, 128, 63.
\<close>

definition exampleStore :: VectorDatabase where
  "exampleStore =
     \<lparr>embeddingDimension = 2, foreignKeys = True,
      documents = [\<lparr>doc_id = 1, doc_file_path = ''a.md'', doc_title = ''A'',
                     doc_last_modified = 1, doc_file_hash = ''a'', doc_created_at = 7,
                     doc_updated_at = 7\<rparr>,
                   \<lparr>doc_id = 2, doc_file_path = ''b.md'', doc_title = ''B'',
                     doc_last_modified = 1, doc_file_hash = ''b'', doc_created_at = 7,
                     doc_updated_at = 7\<rparr>],
      chunks = [\<lparr>chunk_id = 1, chunk_document_id = 1, chunk_content = ''C1'',
                  chunk_chunk_index = 0, chunk_line_start = 1, chunk_line_end = 1,
                  chunk_heading = None\<rparr>,
                \<lparr>chunk_id = 2, chunk_document_id = 2, chunk_content = ''C3'',
                  chunk_chunk_index = 0, chunk_line_start = 1, chunk_line_end = 1,
                  chunk_heading = None\<rparr>],
      embeddings = [\<lparr>emb_chunk_id = 1, emb_embedding = [0, 0, 128, 63, 0, 0, 0, 0]\<rparr>,
                    \<lparr>emb_chunk_id = 2, emb_embedding = [0, 0, 0, 0, 0, 0, 128, 63]\<rparr>],
      documents_seq = 2, chunks_seq = 2\<rparr>"

text \<open>The history that builds it.\<close>

definition exampleHistory :: "StoreOp list" where
  "exampleHistory =
     [UpsertDocument \<lparr>filePath = ''a.md'', title = ''A'', lastModified = 1, fileHash = ''a''\<rparr> 7,
      UpsertDocument \<lparr>filePath = ''b.md'', title = ''B'', lastModified = 1, fileHash = ''b''\<rparr> 7,
      AddChunk \<lparr>cdDocumentId = 1, cdContent = ''C1'', cdChunkIndex = 0, cdLineStart = 1,
                cdLineEnd = 1, cdHeading = None\<rparr>
        (newFloat32Array [0, 0, 128, 63, 0, 0, 0, 0]),
      AddChunk \<lparr>cdDocumentId = 2, cdContent = ''C3'', cdChunkIndex = 0, cdLineStart = 1,
                cdLineEnd = 1, cdHeading = None\<rparr>
        (newFloat32Array [0, 0, 0, 0, 0, 0, 128, 63])]"

text \<open>
  A store of one document with one chunk, as \<open>upsertDocument\<close> and \<open>addChunk\<close> leave
  it on the empty store of dimension 2. The first element of the vector is 2 to the
  power \<open>-60\<close>, as a single-precision number the bytes 0, 0, 128, 33; the second is 0.
\<close>

definition nearStore :: VectorDatabase where
  "nearStore =
     \<lparr>embeddingDimension = 2, foreignKeys = True,
      documents = [\<lparr>doc_id = 1, doc_file_path = ''a.md'', doc_title = ''A'',
                     doc_last_modified = 1, doc_file_hash = ''a'', doc_created_at = 7,
                     doc_updated_at = 7\<rparr>],
      chunks = [\<lparr>chunk_id = 1, chunk_document_id = 1, chunk_content = ''C1'',
                  chunk_chunk_index = 0, chunk_line_start = 1, chunk_line_end = 1,
                  chunk_heading = None\<rparr>],
      embeddings = [\<lparr>emb_chunk_id = 1, emb_embedding = [0, 0, 128, 33, 0, 0, 0, 0]\<rparr>],
      documents_seq = 1, chunks_seq = 1\<rparr>"

section \<open>Properties of the chunker\<close>

subsection \<open>The patterns\<close>

text \<open>No pattern of the markup stripping matches the empty string.\<close>

lemma declarationLine_nonempty: "declarationLine kw atStart s = Some n \<Longrightarrow> 0 < n"
  by (auto simp: declarationLine_def Let_def split: if_splits)

lemma selfClosingTag_nonempty: "selfClosingTag atStart s = Some n \<Longrightarrow> 0 < n"
  by (auto simp: selfClosingTag_def Let_def split: list.splits if_splits)

lemma firstSome_positive:
  "firstSome (\<lambda>t. map_option (\<lambda>d. Suc (g t d)) (h t)) xs = Some n \<Longrightarrow> 0 < n"
  by (induction xs) (auto split: option.splits)

lemma pairedBlock_nonempty:
  assumes "pairedBlock atStart s = Some n"
  shows "0 < n"
proof (cases s)
  case Nil
  with assms show ?thesis by (simp add: pairedBlock_def)
next
  case outer: (Cons lt s1)
  show ?thesis
  proof (cases s1)
    case Nil
    with assms outer show ?thesis by (simp add: pairedBlock_def)
  next
    case (Cons u r)
    let ?xs = "rev [0 ..< Suc (length (takeWhile isAlnum r))]"
    from assms outer Cons
    have "firstSome
            (\<lambda>t. map_option
                    (\<lambda>d. Suc (1 + length (upToClose r) + 1 + d
                               + length (''</'' @ (u # take t (takeWhile isAlnum r)) @ ''>'')))
                    (findSub (''</'' @ (u # take t (takeWhile isAlnum r)) @ ''>'')
                       (drop (Suc (length (upToClose r))) r)))
            ?xs = Some n"
      unfolding pairedBlock_def Let_def by (simp split: if_splits del: upt_Suc)
    then show ?thesis by (rule firstSome_positive)
  qed
qed

lemma bareTag_nonempty: "bareTag atStart s = Some n \<Longrightarrow> 0 < n"
  by (auto simp: bareTag_def Let_def split: list.splits if_splits)

lemma blankRun_nonempty: "blankRun atStart s = Some n \<Longrightarrow> 0 < n"
  by (auto simp: blankRun_def Let_def split: if_splits)

text \<open>Without options the defaults apply.\<close>

lemma withDefaults_none: "withDefaults None None None = DEFAULT_OPTIONS"
  by (simp add: withDefaults_def)

subsection \<open>Trimming\<close>

lemma trim_Nil: "trim [] = []"
  by (simp add: trim_def)

lemma length_trim_le: "length (trim s) \<le> length s"
proof -
  have "length (trim s) \<le> length (dropWhile isWhiteSpace s)"
    unfolding trim_def
    using length_dropWhile_le[of isWhiteSpace "rev (dropWhile isWhiteSpace s)"] by simp
  also have "\<dots> \<le> length s" by (rule length_dropWhile_le)
  finally show ?thesis .
qed

lemma dropWhile_rev_dropWhile_rev:
  assumes "xs = [] \<or> \<not> P (hd xs)"
  shows "dropWhile P (rev (dropWhile P (rev xs))) = rev (dropWhile P (rev xs))"
proof (cases xs)
  case Nil
  then show ?thesis by simp
next
  case (Cons x ys)
  with assms have nP: "\<not> P x" by simp
  have "\<exists>zs. dropWhile P (rev ys @ [x]) = zs @ [x]"
    using nP by (simp add: dropWhile_append)
  then obtain zs where "dropWhile P (rev xs) = zs @ [x]"
    using Cons by auto
  then show ?thesis using nP by simp
qed

lemma trim_idem: "trim (trim s) = trim s"
proof -
  let ?t = "dropWhile isWhiteSpace s"
  have hd: "?t = [] \<or> \<not> isWhiteSpace (hd ?t)"
    using hd_dropWhile[of isWhiteSpace s] by blast
  have "dropWhile isWhiteSpace (trim s) = trim s"
    unfolding trim_def
    by (rule dropWhile_rev_dropWhile_rev[where xs = "dropWhile isWhiteSpace s"
          and P = isWhiteSpace, OF hd])
  then have "trim (trim s) = rev (dropWhile isWhiteSpace (rev (trim s)))"
    by (simp add: trim_def)
  also have "rev (trim s) = dropWhile isWhiteSpace (rev ?t)"
    by (simp add: trim_def)
  finally show ?thesis by (simp add: trim_def)
qed

subsection \<open>The contents the two paths emit\<close>

lemma pushChunks_content:
  "content ` set (fst (pushChunks cs st)) = content ` set (fst st) \<union> content ` set cs"
  by (induction cs st rule: pushChunks.induct) auto

lemma chunkSections_content:
  "content ` set (fst (chunkSections secs M ov st))
     = content ` set (fst st) \<union> (\<Union>s \<in> set secs. content ` set (splitSection s M ov))"
  by (induction secs M ov st rule: chunkSections.induct) (auto simp: pushChunks_content)

lemma splitLoop_trimmed:
  "\<forall>c \<in> set out. trim (content c) = content c \<Longrightarrow>
   \<forall>c \<in> set (splitLoop sec M ov ps out cur cs cl ci). trim (content c) = content c"
proof (induction ps arbitrary: out cur cs cl ci)
  case Nil
  then show ?case by (simp add: trim_idem)
next
  case (Cons p ps)
  show ?case
  proof (cases "int (length cur) + int (length p) + 2 > M \<and> cur \<noteq> []")
    case True
    have "\<forall>c \<in> set (out @ [\<lparr>content = trim cur, index = ci, lineStart = cs,
             lineEnd = cl - 1, heading = sHeading sec\<rparr>]). trim (content c) = content c"
      using Cons.prems by (simp add: trim_idem)
    from Cons.IH[OF this] show ?thesis using True by (simp add: Let_def)
  next
    case False
    from Cons.IH[OF Cons.prems] show ?thesis using False by (auto simp: Let_def)
  qed
qed

lemma flatLoop_trimmed:
  "\<forall>c \<in> set out. trim (content c) = content c \<Longrightarrow>
   \<forall>c \<in> set (flatLoop M ov ls out cur cs cl ci). trim (content c) = content c"
proof (induction ls arbitrary: out cur cs cl ci)
  case Nil
  then show ?case by (simp add: trim_idem)
next
  case (Cons l ls)
  show ?case
  proof (cases "int (length cur) + int (length l) + 1 > M \<and> cur \<noteq> []")
    case True
    have "\<forall>c \<in> set (out @ [\<lparr>content = trim cur, index = ci, lineStart = cs,
             lineEnd = cl - 1, heading = None\<rparr>]). trim (content c) = content c"
      using Cons.prems by (simp add: trim_idem)
    from Cons.IH[OF this] show ?thesis using True by simp
  next
    case False
    from Cons.IH[OF Cons.prems] show ?thesis using False by auto
  qed
qed

lemma splitSection_trimmed:
  "c \<in> set (splitSection sec M ov) \<Longrightarrow> trim (content c) = content c"
  using splitLoop_trimmed[of "[]" sec M ov]
  by (auto simp: splitSection_def Let_def trim_idem split: if_splits)

text \<open>
  Claim C10. Whatever the markdown input and the options, every chunk \<open>chunkMarkdown\<close>
  returns has a content without leading or trailing white space: the content is its own
  trim, on the heading path and on the flat path alike.
\<close>

theorem chunkMarkdown_trimmed:
  "\<forall>c \<in> set (chunkMarkdown content0 opts). trim (content c) = content c"
proof (cases "respectHeadings opts")
  case True
  show ?thesis
  proof
    fix c assume "c \<in> set (chunkMarkdown content0 opts)"
    then have "content c \<in> content ` set (fst (chunkSections
          (parseIntoSections (stripMdxComponents content0))
          (maxChunkSize opts) (chunkOverlap opts) ([], 0)))"
      using True by (simp add: chunkMarkdown_def)
    then obtain s c' where "c' \<in> set (splitSection s (maxChunkSize opts) (chunkOverlap opts))"
      and "content c = content c'"
      unfolding chunkSections_content by auto
    then show "trim (content c) = content c"
      using splitSection_trimmed by metis
  qed
next
  case False
  then show ?thesis
    using flatLoop_trimmed[of "[]"] by (simp add: chunkMarkdown_def)
qed

text \<open>
  The theorem at a document of two sections whose text ends in blanks, on both paths.
\<close>

theorem chunkMarkdown_trimmed_witness:
  "\<lparr>content = ''## B\<newline>\<newline>two'', index = 1, lineStart = 4, lineEnd = 6, heading = Some ''B''\<rparr>
     \<in> set (chunkMarkdown ''# A\<newline>one  \<newline>\<newline>## B\<newline>\<newline>two   '' DEFAULT_OPTIONS)
   \<and> trim ''## B\<newline>\<newline>two'' = ''## B\<newline>\<newline>two''"
proof -
  let ?c = "\<lparr>content = ''## B\<newline>\<newline>two'', index = 1, lineStart = 4, lineEnd = 6,
              heading = Some ''B''\<rparr>"
  have mem: "?c \<in> set (chunkMarkdown ''# A\<newline>one  \<newline>\<newline>## B\<newline>\<newline>two   '' DEFAULT_OPTIONS)"
    by code_simp
  from chunkMarkdown_trimmed[of "''# A\<newline>one  \<newline>\<newline>## B\<newline>\<newline>two   ''" DEFAULT_OPTIONS] mem
  have "trim (content ?c) = content ?c" by blast
  with mem show ?thesis by simp
qed

subsection \<open>The size of a chunk\<close>

lemma sliceFrom_overlap: "0 < ov \<Longrightarrow> int (length (sliceFrom (- ov) s)) \<le> ov"
  by (simp add: sliceFrom_def Let_def)

lemma boundedBuffer_mono:
  "boundedBuffer M ov sep U b \<Longrightarrow> U \<subseteq> V \<Longrightarrow> boundedBuffer M ov sep V b"
  unfolding boundedBuffer_def unitBuffer_def by blast

lemma fromBuffer_mono: "fromBuffer M ov sep U c \<Longrightarrow> U \<subseteq> V \<Longrightarrow> fromBuffer M ov sep V c"
  unfolding fromBuffer_def using boundedBuffer_mono by blast

lemma splitLoop_bounded:
  assumes "0 < ov"
  shows "set ps \<subseteq> U \<Longrightarrow> cur = [] \<or> boundedBuffer M ov [CHR 0x0A, CHR 0x0A] U cur \<Longrightarrow>
    \<forall>c \<in> set out. fromBuffer M ov [CHR 0x0A, CHR 0x0A] U c \<Longrightarrow>
    \<forall>c \<in> set (splitLoop sec M ov ps out cur cs cl ci). fromBuffer M ov [CHR 0x0A, CHR 0x0A] U c"
proof (induction ps arbitrary: out cur cs cl ci)
  case Nil
  have "trim cur \<noteq> [] \<Longrightarrow> boundedBuffer M ov [CHR 0x0A, CHR 0x0A] U cur"
    using Nil.prems(2) by (auto simp: trim_Nil)
  then show ?case using Nil.prems(3) by (auto simp: fromBuffer_def)
next
  case (Cons p ps)
  let ?sep = "[CHR 0x0A, CHR 0x0A]"
  have pU: "p \<in> U" and psU: "set ps \<subseteq> U" using Cons.prems(1) by auto
  show ?case
  proof (cases "int (length cur) + int (length p) + 2 > M \<and> cur \<noteq> []")
    case True
    then have "boundedBuffer M ov ?sep U cur" using Cons.prems(2) by blast
    then have out': "\<forall>c \<in> set (out @ [\<lparr>content = trim cur, index = ci, lineStart = cs,
             lineEnd = cl - 1, heading = sHeading sec\<rparr>]). fromBuffer M ov ?sep U c"
      using Cons.prems(3) by (auto simp: fromBuffer_def)
    have "boundedBuffer M ov ?sep U (sliceFrom (- ov) cur @ ?sep @ p)"
      unfolding boundedBuffer_def unitBuffer_def
      using pU sliceFrom_overlap[OF assms, of cur] by blast
    then have cur': "sliceFrom (- ov) cur @ ?sep @ p = [] \<or>
        boundedBuffer M ov ?sep U (sliceFrom (- ov) cur @ ?sep @ p)" by blast
    from Cons.IH[OF psU cur' out'] show ?thesis using True by (simp add: Let_def)
  next
    case False
    have cur': "(if cur \<noteq> [] then cur @ ?sep @ p else p) = [] \<or>
        boundedBuffer M ov ?sep U (if cur \<noteq> [] then cur @ ?sep @ p else p)"
    proof (cases "cur = []")
      case True
      then show ?thesis using pU unfolding boundedBuffer_def unitBuffer_def by auto
    next
      case nonempty: False
      with False have "int (length (cur @ ?sep @ p)) \<le> M" by simp
      then show ?thesis using nonempty unfolding boundedBuffer_def by simp
    qed
    from Cons.IH[OF psU cur' Cons.prems(3)] show ?thesis using False by (auto simp: Let_def)
  qed
qed

lemma flatLoop_bounded:
  assumes "0 < ov"
  shows "set ls \<subseteq> U \<Longrightarrow> cur = [] \<or> boundedBuffer M ov [CHR 0x0A] U cur \<Longrightarrow>
    \<forall>c \<in> set out. fromBuffer M ov [CHR 0x0A] U c \<Longrightarrow>
    \<forall>c \<in> set (flatLoop M ov ls out cur cs cl ci). fromBuffer M ov [CHR 0x0A] U c"
proof (induction ls arbitrary: out cur cs cl ci)
  case Nil
  have "trim cur \<noteq> [] \<Longrightarrow> boundedBuffer M ov [CHR 0x0A] U cur"
    using Nil.prems(2) by (auto simp: trim_Nil)
  then show ?case using Nil.prems(3) by (auto simp: fromBuffer_def)
next
  case (Cons l ls)
  let ?sep = "[CHR 0x0A]"
  have lU: "l \<in> U" and lsU: "set ls \<subseteq> U" using Cons.prems(1) by auto
  show ?case
  proof (cases "int (length cur) + int (length l) + 1 > M \<and> cur \<noteq> []")
    case True
    then have "boundedBuffer M ov ?sep U cur" using Cons.prems(2) by blast
    then have out': "\<forall>c \<in> set (out @ [\<lparr>content = trim cur, index = ci, lineStart = cs,
             lineEnd = cl - 1, heading = None\<rparr>]). fromBuffer M ov ?sep U c"
      using Cons.prems(3) by (auto simp: fromBuffer_def)
    have "boundedBuffer M ov ?sep U (sliceFrom (- ov) cur @ ?sep @ l)"
      unfolding boundedBuffer_def unitBuffer_def
      using lU sliceFrom_overlap[OF assms, of cur] by blast
    then have cur': "sliceFrom (- ov) cur @ ?sep @ l = [] \<or>
        boundedBuffer M ov ?sep U (sliceFrom (- ov) cur @ ?sep @ l)" by blast
    from Cons.IH[OF lsU cur' out'] show ?thesis using True by simp
  next
    case False
    let ?next = "cur @ (if cur \<noteq> [] then ?sep else []) @ l"
    have cur': "?next = [] \<or> boundedBuffer M ov ?sep U ?next"
    proof (cases "cur = []")
      case True
      then show ?thesis using lU unfolding boundedBuffer_def unitBuffer_def by auto
    next
      case nonempty: False
      with False have "int (length ?next) \<le> M" by simp
      then show ?thesis unfolding boundedBuffer_def by blast
    qed
    from Cons.IH[OF lsU cur' Cons.prems(3)] show ?thesis using False by auto
  qed
qed

lemma splitSection_bounded:
  assumes "0 < ov" and "c \<in> set (splitSection sec M ov)"
  shows "fromBuffer M ov [CHR 0x0A, CHR 0x0A] (set (splitParagraphs [] (trim (sContent sec)))) c"
proof (cases "int (length (trim (sContent sec))) \<le> M")
  case True
  then have "content c = trim (trim (sContent sec))"
    using assms(2) by (auto simp: splitSection_def Let_def trim_idem)
  then show ?thesis using True unfolding fromBuffer_def boundedBuffer_def by blast
next
  case False
  then have "c \<in> set (splitLoop sec M ov (splitParagraphs [] (trim (sContent sec))) [] []
                (sLineStart sec) (sLineStart sec) 0)"
    using assms(2) by (simp add: splitSection_def Let_def)
  then show ?thesis
    using splitLoop_bounded[OF assms(1), of "splitParagraphs [] (trim (sContent sec))"
        "set (splitParagraphs [] (trim (sContent sec)))" "[]" M "[]" sec]
    by simp
qed

lemma fromBuffer_bound:
  assumes "fromBuffer M ov sep (set us) c" and "0 < ov"
  shows "int (length (content c)) \<le> M \<or>
         (\<exists>u \<in> set us.
            (content c = trim u \<or>
             (\<exists>t. int (length t) \<le> ov \<and> content c = trim (t @ sep @ u)))
            \<and> int (length (content c)) \<le> ov + int (length sep) + int (length u))"
proof -
  from assms(1) obtain b where b: "boundedBuffer M ov sep (set us) b" and c: "content c = trim b"
    unfolding fromBuffer_def by blast
  have le: "int (length (content c)) \<le> int (length b)"
    using length_trim_le[of b] c by simp
  from b consider "int (length b) \<le> M" | u where "u \<in> set us" "b = u"
    | u t where "u \<in> set us" "int (length t) \<le> ov" "b = t @ sep @ u"
    unfolding boundedBuffer_def unitBuffer_def by blast
  then show ?thesis
  proof cases
    case 1
    then show ?thesis using le by simp
  next
    case 2
    then have "int (length (content c)) \<le> ov + int (length sep) + int (length u)"
      using le assms(2) by simp
    then show ?thesis using 2 c by blast
  next
    case 3
    then have "int (length (content c)) \<le> ov + int (length sep) + int (length u)"
      using le by simp
    then show ?thesis using 3 c by blast
  qed
qed

text \<open>
  Claim C1, as amended. Let the options have \<open>maxChunkSize = M\<close> and a positive
  \<open>chunkOverlap\<close>. Every chunk \<open>chunkMarkdown\<close> emits has a content of length at most \<open>M\<close>,
  except a chunk that is a single unit (a paragraph on the heading path, a line on the flat
  path), alone or after at most \<open>chunkOverlap\<close> code units of overlap text and the
  separator; the unit need not exceed \<open>M\<close> itself, and the length of such a chunk is at most
  \<open>chunkOverlap\<close> plus the separator plus the unit.
\<close>

theorem chunkMarkdown_size_bound:
  assumes "0 < chunkOverlap opts" and "c \<in> set (chunkMarkdown content0 opts)"
  shows "int (length (content c)) \<le> maxChunkSize opts \<or>
         (\<exists>u \<in> set (chunkUnits content0 opts).
            (content c = trim u \<or>
             (\<exists>t. int (length t) \<le> chunkOverlap opts
                  \<and> content c = trim (t @ unitSeparator opts @ u)))
            \<and> int (length (content c))
                 \<le> chunkOverlap opts + int (length (unitSeparator opts)) + int (length u))"
proof -
  let ?M = "maxChunkSize opts" and ?ov = "chunkOverlap opts"
  have "fromBuffer ?M ?ov (unitSeparator opts) (set (chunkUnits content0 opts)) c"
  proof (cases "respectHeadings opts")
    case True
    let ?secs = "parseIntoSections (stripMdxComponents content0)"
    from assms(2) True have "content c \<in> content ` set (fst (chunkSections ?secs ?M ?ov ([], 0)))"
      by (simp add: chunkMarkdown_def)
    then obtain s c' where s: "s \<in> set ?secs" and c': "c' \<in> set (splitSection s ?M ?ov)"
      and eq: "content c = content c'"
      unfolding chunkSections_content by auto
    have "fromBuffer ?M ?ov [CHR 0x0A, CHR 0x0A] (set (splitParagraphs [] (trim (sContent s)))) c'"
      by (rule splitSection_bounded[OF assms(1) c'])
    moreover have "set (splitParagraphs [] (trim (sContent s))) \<subseteq> set (chunkUnits content0 opts)"
      using s True by (auto simp: chunkUnits_def)
    ultimately have "fromBuffer ?M ?ov [CHR 0x0A, CHR 0x0A] (set (chunkUnits content0 opts)) c'"
      by (rule fromBuffer_mono)
    then show ?thesis using eq True by (simp add: fromBuffer_def unitSeparator_def)
  next
    case False
    then have "c \<in> set (flatLoop ?M ?ov (splitOn (CHR 0x0A) (stripMdxComponents content0)) [] [] 1 1 0)"
      using assms(2) by (simp add: chunkMarkdown_def)
    then show ?thesis
      using flatLoop_bounded[OF assms(1), of "splitOn (CHR 0x0A) (stripMdxComponents content0)"
          "set (chunkUnits content0 opts)" "[]" ?M "[]"] False
      by (simp add: chunkUnits_def unitSeparator_def)
  qed
  then show ?thesis by (rule fromBuffer_bound[OF _ assms(1)])
qed

text \<open>
  The theorem at two paragraphs of eight letters with \<open>M = 10\<close> and an overlap of five:
  the second chunk is five letters of overlap, the separator and the second paragraph.
\<close>

theorem chunkMarkdown_size_bound_witness:
  "0 < chunkOverlap \<lparr>maxChunkSize = 10, chunkOverlap = 5, respectHeadings = True\<rparr>
   \<and> \<lparr>content = ''aaaaa\<newline>\<newline>bbbbbbbb'', index = 1, lineStart = 3, lineEnd = 3, heading = None\<rparr>
       \<in> set (chunkMarkdown ''aaaaaaaa\<newline>\<newline>bbbbbbbb''
                \<lparr>maxChunkSize = 10, chunkOverlap = 5, respectHeadings = True\<rparr>)
   \<and> (\<exists>u \<in> set (chunkUnits ''aaaaaaaa\<newline>\<newline>bbbbbbbb''
                     \<lparr>maxChunkSize = 10, chunkOverlap = 5, respectHeadings = True\<rparr>).
         (''aaaaa\<newline>\<newline>bbbbbbbb'' = trim u \<or>
          (\<exists>t. int (length t) \<le> 5 \<and> ''aaaaa\<newline>\<newline>bbbbbbbb'' = trim (t @ [CHR 0x0A, CHR 0x0A] @ u)))
         \<and> 15 \<le> 5 + 2 + int (length u))"
proof -
  let ?opts = "\<lparr>maxChunkSize = 10, chunkOverlap = 5, respectHeadings = True\<rparr>"
  let ?c = "\<lparr>content = ''aaaaa\<newline>\<newline>bbbbbbbb'', index = 1, lineStart = 3, lineEnd = 3,
              heading = None\<rparr>"
  have pos: "0 < chunkOverlap ?opts" by simp
  have mem: "?c \<in> set (chunkMarkdown ''aaaaaaaa\<newline>\<newline>bbbbbbbb'' ?opts)"
    by code_simp
  from chunkMarkdown_size_bound[OF pos mem] pos mem show ?thesis
    by (simp add: unitSeparator_def)
qed

text \<open>
  Claim C1 as the specification states it fails. With \<open>M = 10\<close> and an overlap of five,
  the input of two paragraphs of eight letters gives a second chunk of fifteen code
  units, and neither paragraph is longer than \<open>M\<close>: the chunk exceeds the limit without
  containing a unit that does.
\<close>

theorem chunkMarkdown_size_counterexample:
  "map content (chunkMarkdown ''aaaaaaaa\<newline>\<newline>bbbbbbbb''
                  \<lparr>maxChunkSize = 10, chunkOverlap = 5, respectHeadings = True\<rparr>)
     = [''aaaaaaaa'', ''aaaaa\<newline>\<newline>bbbbbbbb'']
   \<and> \<not> int (length ''aaaaa\<newline>\<newline>bbbbbbbb'') \<le> 10
   \<and> chunkUnits ''aaaaaaaa\<newline>\<newline>bbbbbbbb''
        \<lparr>maxChunkSize = 10, chunkOverlap = 5, respectHeadings = True\<rparr>
     = [''aaaaaaaa'', ''bbbbbbbb'']
   \<and> int (length ''aaaaaaaa'') \<le> 10 \<and> int (length ''bbbbbbbb'') \<le> 10"
  by code_simp

text \<open>
  The same on the flat path, and what an overlap of zero does there: \<open>slice(-0)\<close> keeps the
  whole buffer, so each chunk repeats all the chunks before it.
\<close>

lemma flat_overlap_example:
  "map content (chunkMarkdown ''aaaaaaaa\<newline>bbbbbbbb''
                  \<lparr>maxChunkSize = 10, chunkOverlap = 5, respectHeadings = False\<rparr>)
     = [''aaaaaaaa'', ''aaaaa\<newline>bbbbbbbb'']"
  by code_simp

lemma zero_overlap_example:
  "map content (chunkMarkdown ''aaaaaaaa\<newline>bbbbbbbb\<newline>ccc''
                  \<lparr>maxChunkSize = 10, chunkOverlap = 0, respectHeadings = False\<rparr>)
     = [''aaaaaaaa'', ''aaaaaaaa\<newline>bbbbbbbb'', ''aaaaaaaa\<newline>bbbbbbbb\<newline>ccc'']"
  by code_simp

subsection \<open>The title\<close>

text \<open>The two scenarios of the specification.\<close>

lemma extractTitle_fallback_example:
  "extractTitle ''Just text'' ''my-docs.md'' = ''my-docs''"
  by code_simp

lemma extractTitle_heading_example:
  "extractTitle ''# Title\<newline>...'' ''x.mdx'' = ''Title''"
  by code_simp

text \<open>
  The ordinary cases: without any \<open>#\<close> in the content the title is the file name without
  its trailing \<open>.md\<close> or \<open>.mdx\<close>, and a first line \<open>#\<close>, space, text gives the
  trimmed text.
\<close>

lemma firstHeading_without_hash: "CHR ''#'' \<notin> set s \<Longrightarrow> firstHeading atStart s = None"
  by (induction s arbitrary: atStart) (auto simp: headingAt_def)

lemma extractTitle_without_hash:
  "CHR ''#'' \<notin> set content0 \<Longrightarrow> extractTitle content0 f = stripMarkdownExtension f"
  by (simp add: extractTitle_def firstHeading_without_hash)

lemma stripMarkdownExtension_mdx: "stripMarkdownExtension (n @ ''.mdx'') = n"
  by (simp add: stripMarkdownExtension_def endsWithCI_def sameLetter_def)

lemma stripMarkdownExtension_md: "stripMarkdownExtension (n @ ''.md'') = n"
proof -
  have "\<not> endsWithCI ''.mdx'' (n @ ''.md'')"
  proof (cases n rule: rev_cases)
    case Nil
    then show ?thesis by (simp add: endsWithCI_def)
  next
    case (snoc ys y)
    then show ?thesis by (simp add: endsWithCI_def sameLetter_def)
  qed
  moreover have "endsWithCI ''.md'' (n @ ''.md'')"
    by (simp add: endsWithCI_def sameLetter_def)
  ultimately show ?thesis
    by (simp add: stripMarkdownExtension_def)
qed

lemma extractTitle_first_line:
  assumes "t \<noteq> []" and "\<not> isWhiteSpace (hd t)" and "list_all notLineTerminator t"
  shows "extractTitle (''# '' @ t @ CHR 0x0A # rest) f = trim t"
proof -
  have hdt: "dropWhile isWhiteSpace (t @ CHR 0x0A # rest) = t @ CHR 0x0A # rest"
    using assms(1,2) by (cases t) auto
  have tw: "takeWhile isWhiteSpace (t @ CHR 0x0A # rest) = []"
    using assms(1,2) by (cases t) auto
  have "takeWhile notLineTerminator (t @ CHR 0x0A # rest) = t"
    using assms(3) by (induction t) (auto simp: notLineTerminator_def isLineTerminator_def)
  then have "headingAt (''# '' @ t @ CHR 0x0A # rest) = Some t"
    using assms(1) hdt tw by (simp add: headingAt_def isWhiteSpace_def Let_def)
  then show ?thesis by (simp add: extractTitle_def)
qed

text \<open>
  Claim C8 at the content \<open>#\<close>, line break, \<open>Intro\<close>. The content has two lines and neither
  is a heading (the heading pattern of \<open>parseIntoSections\<close> refuses both), so the title
  should be the file name without its extension, \<open>x\<close>. But the \<open>\s+\<close> of the title pattern
  takes the line break, and \<open>extractTitle\<close> answers the text of the second line.
\<close>

theorem extractTitle_bare_hash:
  "extractTitle ''#\<newline>Intro'' ''x.md'' = ''Intro''
   \<and> splitOn (CHR 0x0A) ''#\<newline>Intro'' = [''#'', ''Intro'']
   \<and> headingMatch ''#'' = None \<and> headingMatch ''Intro'' = None
   \<and> stripMarkdownExtension ''x.md'' = ''x''"
  by code_simp

section \<open>Properties of the vector store\<close>

lemma fold_max_ge: "(seq::int) \<le> fold max ids seq"
proof (induction ids arbitrary: seq)
  case Nil then show ?case by simp
next
  case (Cons a ids)
  have "seq \<le> max a seq" by simp
  also have "\<dots> \<le> fold max ids (max a seq)" by (rule Cons.IH)
  finally show ?case by simp
qed

lemma fold_max_mem: "i \<in> set ids \<Longrightarrow> (i::int) \<le> fold max ids seq"
proof (induction ids arbitrary: seq)
  case Nil then show ?case by simp
next
  case (Cons a ids)
  show ?case
  proof (cases "i = a")
    case True
    have "max a seq \<le> fold max ids (max a seq)" by (rule fold_max_ge)
    then show ?thesis using True by simp
  next
    case False
    then show ?thesis using Cons by simp
  qed
qed

lemma nextRowid_fresh: "i \<in> set ids \<Longrightarrow> i < nextRowid seq ids"
  using fold_max_mem[of i ids seq] by (simp add: nextRowid_def)

lemma nextRowid_above: "seq < nextRowid seq ids"
  using fold_max_ge[of seq ids] by (simp add: nextRowid_def)

lemma fold_delete_embeddings:
  "fold (\<lambda>i es. filter (\<lambda>e. emb_chunk_id e \<noteq> i) es) ids rows
     = filter (\<lambda>e. emb_chunk_id e \<notin> set ids) rows"
  by (induction ids arbitrary: rows) (auto intro: filter_cong)

lemma deleteDocumentChunks_eq:
  "deleteDocumentChunks d db =
     db\<lparr>embeddings := filter (\<lambda>e. emb_chunk_id e \<notin> chunk_id ` {c \<in> set (chunks db). chunk_document_id c = d}) (embeddings db),
        chunks := filter (\<lambda>c. chunk_document_id c \<noteq> d) (chunks db)\<rparr>"
  by (simp add: deleteDocumentChunks_def fold_delete_embeddings Let_def)

lemma find_append_miss:
  "\<forall>x \<in> set xs. \<not> P x \<Longrightarrow> find P (xs @ [r]) = (if P r then Some r else None)"
  by (induction xs) auto

lemma find_map_preserve:
  assumes "\<And>x. P (f x) = P x"
  shows "find P (map f xs) = map_option f (find P xs)"
  using assms by (induction xs) auto

lemma storeInv_empty: "storeInv (emptyStore fk n)"
  by (simp add: storeInv_def emptyStore_def)

lemma storeInv_upsert: "storeInv db \<Longrightarrow> storeInv (snd (upsertDocument meta now db))"
  by (auto simp: storeInv_def upsertDocument_def Let_def split: option.splits)

lemma storeInv_delete: "storeInv db \<Longrightarrow> storeInv (deleteDocumentChunks d db)"
  by (auto simp: storeInv_def deleteDocumentChunks_eq distinct_map_filter list_all_iff)

lemma addChunk_fresh:
  assumes "storeInv db"
  defines "cid \<equiv> nextRowid (chunks_seq db) (map chunk_id (chunks db))"
  shows "cid \<notin> chunk_id ` set (chunks db)" and "cid \<notin> emb_chunk_id ` set (embeddings db)"
    and "chunks_seq db < cid"
proof -
  show seq: "chunks_seq db < cid" unfolding cid_def by (rule nextRowid_above)
  show "cid \<notin> chunk_id ` set (chunks db)"
    using nextRowid_fresh[of _ "map chunk_id (chunks db)" "chunks_seq db"]
    unfolding cid_def by fastforce
  show "cid \<notin> emb_chunk_id ` set (embeddings db)"
    using assms(1) seq by (fastforce simp: storeInv_def list_all_iff)
qed

lemma storeInv_addChunk:
  assumes "storeInv db"
  shows "storeInv (snd (addChunk c v db))"
proof -
  let ?cid = "nextRowid (chunks_seq db) (map chunk_id (chunks db))"
  note fresh = addChunk_fresh[OF assms]
  have le: "\<forall>x \<in> set (chunks db). chunk_id x \<le> ?cid"
    "\<forall>e \<in> set (embeddings db). emb_chunk_id e \<le> ?cid"
    using assms fresh(3) by (auto simp: storeInv_def list_all_iff)
  show ?thesis
    using assms fresh(1) le
    by (auto simp: storeInv_def addChunk_def vec0_insert_def Let_def list_all_iff)
qed

lemma storeInv_applyOp: "storeInv db \<Longrightarrow> storeInv (applyOp op db)"
  by (cases op) (simp_all add: storeInv_upsert storeInv_addChunk storeInv_delete)

lemma storeInv_fold: "storeInv db \<Longrightarrow> storeInv (fold applyOp ops db)"
  by (induction ops arbitrary: db) (simp_all add: storeInv_applyOp)

lemma storeInv_reachable: "storeInv (runOps ops (emptyStore fk n))"
  unfolding runOps_def by (rule storeInv_fold[OF storeInv_empty])

lemma dimension_applyOp: "embeddingDimension (applyOp op db) = embeddingDimension db"
  by (cases op)
     (auto simp: upsertDocument_def addChunk_def deleteDocumentChunks_def Let_def
           split: option.splits sum.splits)

lemma paired_delete:
  assumes "pairedRows db" and "distinct (map chunk_id (chunks db))"
  shows "pairedRows (deleteDocumentChunks d db)"
proof -
  let ?D = "chunk_id ` {c \<in> set (chunks db). chunk_document_id c = d}"
  have "chunk_document_id c \<noteq> d \<longleftrightarrow> chunk_id c \<notin> ?D" if "c \<in> set (chunks db)" for c
    using that assms(2) by (auto simp: distinct_map inj_on_def)
  then have "filter (\<lambda>c. chunk_document_id c \<noteq> d) (chunks db)
      = filter ((\<lambda>i. i \<notin> ?D) \<circ> chunk_id) (chunks db)"
    by (auto intro: filter_cong)
  then have "map chunk_id (filter (\<lambda>c. chunk_document_id c \<noteq> d) (chunks db))
      = filter (\<lambda>i. i \<notin> ?D) (map chunk_id (chunks db))"
    by (simp add: filter_map)
  also have "\<dots> = filter (\<lambda>i. i \<notin> ?D) (map emb_chunk_id (embeddings db))"
    using assms(1) by (simp add: pairedRows_def)
  also have "\<dots> = map emb_chunk_id (filter (\<lambda>e. emb_chunk_id e \<notin> ?D) (embeddings db))"
    by (simp add: filter_map comp_def)
  finally show ?thesis by (simp add: pairedRows_def deleteDocumentChunks_eq)
qed

lemma paired_addChunk:
  assumes "pairedRows db" and "storeInv db"
    and "length (faBuffer v) = 4 * embeddingDimension db"
  shows "pairedRows (snd (addChunk c v db))"
  using assms addChunk_fresh(2)[OF assms(2)]
  by (simp add: pairedRows_def addChunk_def vec0_insert_def bufferFrom_def Let_def)

lemma paired_upsert: "pairedRows db \<Longrightarrow> pairedRows (snd (upsertDocument meta now db))"
  by (auto simp: pairedRows_def upsertDocument_def Let_def split: option.splits)

lemma paired_applyOp:
  assumes "pairedRows db" and "storeInv db" and "fitsDimension (embeddingDimension db) op"
  shows "pairedRows (applyOp op db)"
proof (cases op)
  case (UpsertDocument meta now)
  then show ?thesis using assms(1) by (simp add: paired_upsert)
next
  case (AddChunk c v)
  then show ?thesis using assms by (simp add: paired_addChunk)
next
  case (DeleteDocumentChunks d)
  then show ?thesis using assms by (simp add: paired_delete storeInv_def)
qed

lemma paired_fold:
  "pairedRows db \<Longrightarrow> storeInv db \<Longrightarrow> list_all (fitsDimension (embeddingDimension db)) ops
     \<Longrightarrow> pairedRows (fold applyOp ops db)"
proof (induction ops arbitrary: db)
  case Nil
  then show ?case by simp
next
  case (Cons op ops)
  have "pairedRows (applyOp op db)" using Cons.prems by (simp add: paired_applyOp)
  moreover have "storeInv (applyOp op db)" using Cons.prems by (simp add: storeInv_applyOp)
  moreover have "list_all (fitsDimension (embeddingDimension (applyOp op db))) ops"
    using Cons.prems by (simp add: dimension_applyOp)
  ultimately show ?case using Cons.IH by simp
qed

lemma deleteLoop_frame:
  "documents (fst (deleteLoop ds (db, k))) = documents db
   \<and> chunks (fst (deleteLoop ds (db, k)))
       = filter (\<lambda>c. chunk_document_id c \<notin> doc_id ` set ds) (chunks db)
   \<and> embeddings (fst (deleteLoop ds (db, k)))
       = filter (\<lambda>e. emb_chunk_id e
                        \<notin> chunk_id ` {c \<in> set (chunks db). chunk_document_id c \<in> doc_id ` set ds})
           (embeddings db)
   \<and> snd (deleteLoop ds (db, k)) = k + length ds"
proof (induction ds arbitrary: db k)
  case Nil
  then show ?case by simp
next
  case (Cons doc ds)
  let ?db = "deleteDocumentChunks (doc_id doc) db"
  have c: "filter (\<lambda>c. chunk_document_id c \<notin> doc_id ` set ds)
           (filter (\<lambda>c. chunk_document_id c \<noteq> doc_id doc) (chunks db))
        = filter (\<lambda>c. chunk_document_id c \<notin> doc_id ` set (doc # ds)) (chunks db)"
    by (auto intro: filter_cong)
  let ?D1 = "chunk_id ` {c \<in> set (chunks db). chunk_document_id c = doc_id doc}"
  let ?A' = "chunk_id ` {c \<in> set (filter (\<lambda>c. chunk_document_id c \<noteq> doc_id doc) (chunks db)).
                          chunk_document_id c \<in> doc_id ` set ds}"
  let ?A = "chunk_id ` {c \<in> set (chunks db). chunk_document_id c \<in> doc_id ` set (doc # ds)}"
  have A: "?A = ?A' \<union> ?D1" by auto
  have "filter (\<lambda>e. emb_chunk_id e \<notin> ?A') (filter (\<lambda>e. emb_chunk_id e \<notin> ?D1) (embeddings db))
        = filter (\<lambda>e. emb_chunk_id e \<notin> ?A) (embeddings db)"
    unfolding A by (auto intro: filter_cong)
  then have e: "filter (\<lambda>e. emb_chunk_id e \<notin> chunk_id ` {c \<in> set (chunks ?db). chunk_document_id c \<in> doc_id ` set ds})
             (embeddings ?db)
        = filter (\<lambda>e. emb_chunk_id e \<notin> ?A) (embeddings db)"
    by (simp add: deleteDocumentChunks_eq)
  show ?case using Cons.IH[of ?db "k + 1"] c e
    by (simp add: deleteDocumentChunks_eq)
qed

text \<open>
  Claim C5. Whatever the path and the hash, right after \<open>upsertDocument\<close> with that path
  and hash \<open>documentNeedsUpdate\<close> is false for the same pair and true for every other hash
  at that path; and it is true at a path where the store has no document.
\<close>

theorem documentNeedsUpdate_after_upsert:
  "(documentNeedsUpdate (filePath meta) h (snd (upsertDocument meta now db))
      \<longleftrightarrow> h \<noteq> fileHash meta)
   \<and> (getDocumentByPath path db = None \<longrightarrow> documentNeedsUpdate path h' db)"
proof
  show "getDocumentByPath path db = None \<longrightarrow> documentNeedsUpdate path h' db"
    by (simp add: getDocumentByPath_def documentNeedsUpdate_def)
  show "documentNeedsUpdate (filePath meta) h (snd (upsertDocument meta now db))
      \<longleftrightarrow> h \<noteq> fileHash meta"
  proof (cases "find (\<lambda>d. doc_file_path d = filePath meta) (documents db)")
    case None
    then have "\<forall>d \<in> set (documents db). doc_file_path d \<noteq> filePath meta"
      by (simp add: find_None_iff)
    then have "find (\<lambda>d. doc_file_path d = filePath meta) (documents db @ [r]) =
        (if doc_file_path r = filePath meta then Some r else None)" for r
      by (rule find_append_miss)
    then show ?thesis using None
      by (auto simp: upsertDocument_def documentNeedsUpdate_def Let_def)
  next
    case (Some existing)
    let ?f = "\<lambda>d. if doc_id d = doc_id existing
                            then d\<lparr>doc_title := title meta,
                                   doc_last_modified := lastModified meta,
                                   doc_file_hash := fileHash meta,
                                   doc_updated_at := now\<rparr>
                            else d"
    have "find (\<lambda>d. doc_file_path d = filePath meta) (map ?f (documents db))
          = map_option ?f (find (\<lambda>d. doc_file_path d = filePath meta) (documents db))"
      by (rule find_map_preserve) simp
    then show ?thesis using Some
      by (auto simp: upsertDocument_def documentNeedsUpdate_def)
  qed
qed

text \<open>The theorem at the store of the repository's test: one document, then three questions.\<close>

theorem documentNeedsUpdate_after_upsert_witness:
  "getDocumentByPath ''new.md'' (emptyStore True 4) = None
   \<and> documentNeedsUpdate ''new.md'' ''any'' (emptyStore True 4)
   \<and> \<not> documentNeedsUpdate ''test.md'' ''original''
         (snd (upsertDocument
            \<lparr>filePath = ''test.md'', title = ''Test'', lastModified = 0, fileHash = ''original''\<rparr>
            0 (emptyStore True 4)))
   \<and> documentNeedsUpdate ''test.md'' ''changed''
         (snd (upsertDocument
            \<lparr>filePath = ''test.md'', title = ''Test'', lastModified = 0, fileHash = ''original''\<rparr>
            0 (emptyStore True 4)))"
proof -
  let ?meta = "\<lparr>filePath = ''test.md'', title = ''Test'', lastModified = 0,
                 fileHash = ''original''\<rparr>"
  have none: "getDocumentByPath ''new.md'' (emptyStore True 4) = None"
    by (simp add: getDocumentByPath_def emptyStore_def)
  from documentNeedsUpdate_after_upsert[of ?meta "''original''" 0 "emptyStore True 4"
         "''new.md''" "''any''"]
       documentNeedsUpdate_after_upsert[of ?meta "''changed''" 0 "emptyStore True 4"
         "''new.md''" "''any''"]
       none
  show ?thesis by simp
qed

text \<open>
  Claim C2, as amended. From the empty store, after every sequence of \<open>upsertDocument\<close>
  and \<open>deleteDocumentChunks\<close> calls and of \<open>addChunk\<close> calls whose vector has the
  dimension of the store (the buffer under the vector is one of that many elements), the
  chunk rows and the embedding rows are as many, and they are paired: the same chunk ids
  in both tables, each once.
\<close>

theorem chunk_embedding_pairing:
  assumes "list_all (fitsDimension n) ops"
  shows "statChunks (getStats (runOps ops (emptyStore fk n)))
           = statEmbeddings (getStats (runOps ops (emptyStore fk n)))
         \<and> map chunk_id (chunks (runOps ops (emptyStore fk n)))
             = map emb_chunk_id (embeddings (runOps ops (emptyStore fk n)))
         \<and> distinct (map chunk_id (chunks (runOps ops (emptyStore fk n))))"
proof -
  have "pairedRows (emptyStore fk n)" by (simp add: pairedRows_def emptyStore_def)
  moreover have "embeddingDimension (emptyStore fk n) = n" by (simp add: emptyStore_def)
  ultimately have p: "pairedRows (runOps ops (emptyStore fk n))"
    unfolding runOps_def using paired_fold[OF _ storeInv_empty, of fk n ops] assms by simp
  have "length (map chunk_id (chunks (runOps ops (emptyStore fk n))))
      = length (map emb_chunk_id (embeddings (runOps ops (emptyStore fk n))))"
    using p by (simp only: pairedRows_def)
  then show ?thesis
    using p storeInv_reachable[of ops fk n] by (simp add: getStats_def pairedRows_def storeInv_def)
qed

text \<open>The theorem at the example history followed by one deletion.\<close>

theorem chunk_embedding_pairing_witness:
  "list_all (fitsDimension 2) (exampleHistory @ [DeleteDocumentChunks 1])
   \<and> statChunks (getStats (runOps (exampleHistory @ [DeleteDocumentChunks 1])
                               (emptyStore True 2)))
     = statEmbeddings (getStats (runOps (exampleHistory @ [DeleteDocumentChunks 1])
                                   (emptyStore True 2)))
   \<and> map chunk_id (chunks (runOps (exampleHistory @ [DeleteDocumentChunks 1])
                               (emptyStore True 2)))
     = map emb_chunk_id (embeddings (runOps (exampleHistory @ [DeleteDocumentChunks 1])
                                         (emptyStore True 2)))"
proof -
  have fits: "list_all (fitsDimension 2) (exampleHistory @ [DeleteDocumentChunks 1])"
    by (simp add: exampleHistory_def newFloat32Array_def)
  from chunk_embedding_pairing[OF fits, of True] fits show ?thesis by blast
qed

text \<open>
  Claim C2 as the specification states it fails. On a store of dimension 4 that holds
  the document, one \<open>addChunk\<close> call with a vector of three elements (twelve bytes)
  throws after the chunk row is written: the store then counts one chunk row and no
  embedding row, with the foreign key enforced or not.
\<close>

theorem chunk_embedding_pairing_counterexample:
  "fst (addChunk \<lparr>cdDocumentId = 1, cdContent = ''C1'', cdChunkIndex = 0, cdLineStart = 1,
                  cdLineEnd = 1, cdHeading = None\<rparr>
          (newFloat32Array [0, 0, 128, 63, 0, 0, 0, 0, 0, 0, 0, 0])
          (runOps [UpsertDocument \<lparr>filePath = ''a.md'', title = ''A'', lastModified = 1,
                                   fileHash = ''a''\<rparr> 7] (emptyStore True 4)))
     = Inl DimensionMismatch
   \<and> getStats (runOps
       [UpsertDocument \<lparr>filePath = ''a.md'', title = ''A'', lastModified = 1,
                        fileHash = ''a''\<rparr> 7,
        AddChunk \<lparr>cdDocumentId = 1, cdContent = ''C1'', cdChunkIndex = 0, cdLineStart = 1,
                  cdLineEnd = 1, cdHeading = None\<rparr>
          (newFloat32Array [0, 0, 128, 63, 0, 0, 0, 0, 0, 0, 0, 0])] (emptyStore True 4))
     = \<lparr>statDocuments = 1, statChunks = 1, statEmbeddings = 0\<rparr>
   \<and> getStats (runOps
       [UpsertDocument \<lparr>filePath = ''a.md'', title = ''A'', lastModified = 1,
                        fileHash = ''a''\<rparr> 7,
        AddChunk \<lparr>cdDocumentId = 1, cdContent = ''C1'', cdChunkIndex = 0, cdLineStart = 1,
                  cdLineEnd = 1, cdHeading = None\<rparr>
          (newFloat32Array [0, 0, 128, 63, 0, 0, 0, 0, 0, 0, 0, 0])] (emptyStore False 4))
     = \<lparr>statDocuments = 1, statChunks = 1, statEmbeddings = 0\<rparr>"
  by (simp add: runOps_def upsertDocument_def addChunk_def vec0_insert_def emptyStore_def
        getStats_def nextRowid_def bufferFrom_def newFloat32Array_def Let_def)

text \<open>
  Claim C6, as amended. On a store reached from the empty one, for a chunk whose document
  the store holds and a vector that spans its buffer (as \<open>new Float32Array(values)\<close>
  builds it), \<open>addChunk\<close> throws the dimension error whenever the length of the vector
  differs from the dimension of the store, and no embedding row is written then, cut or
  padded; when the lengths agree it answers a fresh chunk id and has written the chunk
  row and, under the same id, the elements of the vector as given.
\<close>

theorem addChunk_dimension_check:
  assumes "storeInv db" and "ownBuffer v"
    and "cdDocumentId c \<in> doc_id ` set (documents db)"
  shows "(faLength v \<noteq> embeddingDimension db \<longrightarrow>
            fst (addChunk c v db) = Inl DimensionMismatch
            \<and> embeddings (snd (addChunk c v db)) = embeddings db)
       \<and> (faLength v = embeddingDimension db \<longrightarrow>
            (\<exists>chunkId. fst (addChunk c v db) = Inr chunkId
               \<and> chunkId \<notin> chunk_id ` set (chunks db)
               \<and> chunks (snd (addChunk c v db)) = chunks db @
                    [\<lparr>chunk_id = chunkId, chunk_document_id = cdDocumentId c,
                      chunk_content = cdContent c, chunk_chunk_index = cdChunkIndex c,
                      chunk_line_start = cdLineStart c, chunk_line_end = cdLineEnd c,
                      chunk_heading = cdHeading c\<rparr>]
               \<and> embeddings (snd (addChunk c v db)) = embeddings db @
                    [\<lparr>emb_chunk_id = chunkId, emb_embedding = viewBytes v\<rparr>]))"
proof -
  have blob: "bufferFrom v = viewBytes v" and len: "length (bufferFrom v) = 4 * faLength v"
    using assms(2) by (simp_all add: ownBuffer_def bufferFrom_def viewBytes_def)
  show ?thesis
    using addChunk_fresh(1,2)[OF assms(1)] assms(3) len
    by (simp add: addChunk_def vec0_insert_def Let_def blob)
qed

text \<open>Every store a history reaches from the empty one is of that kind.\<close>

lemma addChunk_reachable: "storeInv (runOps ops (emptyStore fk n))"
  by (rule storeInv_reachable)

text \<open>
  The theorem at the example store, of dimension 2, with a vector of three elements and
  one of two for a chunk of its first document.
\<close>

theorem addChunk_dimension_check_witness:
  "storeInv exampleStore
   \<and> ownBuffer (newFloat32Array [0, 0, 128, 63, 0, 0, 0, 0, 0, 0, 0, 0])
   \<and> ownBuffer (newFloat32Array [0, 0, 0, 0, 0, 0, 128, 63])
   \<and> (1::int) \<in> doc_id ` set (documents exampleStore)
   \<and> faLength (newFloat32Array [0, 0, 128, 63, 0, 0, 0, 0, 0, 0, 0, 0])
       \<noteq> embeddingDimension exampleStore
   \<and> fst (addChunk \<lparr>cdDocumentId = 1, cdContent = ''C2'', cdChunkIndex = 1, cdLineStart = 2,
                    cdLineEnd = 2, cdHeading = None\<rparr>
            (newFloat32Array [0, 0, 128, 63, 0, 0, 0, 0, 0, 0, 0, 0]) exampleStore)
       = Inl DimensionMismatch
   \<and> faLength (newFloat32Array [0, 0, 0, 0, 0, 0, 128, 63]) = embeddingDimension exampleStore
   \<and> (\<exists>chunkId. fst (addChunk \<lparr>cdDocumentId = 1, cdContent = ''C2'', cdChunkIndex = 1,
                    cdLineStart = 2, cdLineEnd = 2, cdHeading = None\<rparr>
                    (newFloat32Array [0, 0, 0, 0, 0, 0, 128, 63]) exampleStore)
                  = Inr chunkId)"
proof -
  let ?c = "\<lparr>cdDocumentId = 1, cdContent = ''C2'', cdChunkIndex = 1, cdLineStart = 2,
              cdLineEnd = 2, cdHeading = None\<rparr>"
  let ?v3 = "newFloat32Array [0, 0, 128, 63, 0, 0, 0, 0, 0, 0, 0, 0]"
  let ?v2 = "newFloat32Array [0, 0, 0, 0, 0, 0, 128, 63]"
  have inv: "storeInv exampleStore" by (simp add: storeInv_def exampleStore_def)
  have own3: "ownBuffer ?v3" and own2: "ownBuffer ?v2"
    by (simp_all add: ownBuffer_def newFloat32Array_def)
  have l3: "faLength ?v3 \<noteq> embeddingDimension exampleStore"
    and l2: "faLength ?v2 = embeddingDimension exampleStore"
    and doc: "cdDocumentId ?c \<in> doc_id ` set (documents exampleStore)"
    by (simp_all add: exampleStore_def newFloat32Array_def)
  from addChunk_dimension_check[OF inv own3 doc] l3
  have a: "fst (addChunk ?c ?v3 exampleStore) = Inl DimensionMismatch" by blast
  from addChunk_dimension_check[OF inv own2 doc] l2
  have b: "\<exists>chunkId. fst (addChunk ?c ?v2 exampleStore) = Inr chunkId" by blast
  from inv own3 own2 l3 l2 doc a b show ?thesis by simp
qed

text \<open>
  Claim C6 as the specification states it fails. The example store does not hold a
  document 9 and enforces the foreign key: for a chunk of that document \<open>addChunk\<close>
  throws although the vector has the dimension of the store, and writes nothing.
\<close>

theorem addChunk_dimension_check_counterexample:
  "faLength (newFloat32Array [0, 0, 0, 0, 0, 0, 128, 63]) = embeddingDimension exampleStore
   \<and> addChunk \<lparr>cdDocumentId = 9, cdContent = ''C2'', cdChunkIndex = 1, cdLineStart = 2,
                cdLineEnd = 2, cdHeading = None\<rparr>
        (newFloat32Array [0, 0, 0, 0, 0, 0, 128, 63]) exampleStore
     = (Inl ForeignKeyConstraint, exampleStore)"
  by (simp add: addChunk_def exampleStore_def newFloat32Array_def)

text \<open>
  What the amended claim leaves out: a vector that is a view of a longer buffer. The blob
  handed to the table is the whole buffer, so on the example store, of dimension 2, a
  view of one element over a buffer of two is stored with both, and a view of two
  elements over a buffer of three is refused, its chunk row staying behind.
\<close>

lemma addChunk_view_example:
  "embeddings (snd (addChunk
      \<lparr>cdDocumentId = 1, cdContent = ''C2'', cdChunkIndex = 1, cdLineStart = 2,
        cdLineEnd = 2, cdHeading = None\<rparr>
      \<lparr>faBuffer = [0, 0, 16, 65, 0, 0, 128, 63], faByteOffset = 0, faLength = 1\<rparr>
      exampleStore))
     = embeddings exampleStore
         @ [\<lparr>emb_chunk_id = 3, emb_embedding = [0, 0, 16, 65, 0, 0, 128, 63]\<rparr>]
   \<and> fst (addChunk
      \<lparr>cdDocumentId = 1, cdContent = ''C2'', cdChunkIndex = 1, cdLineStart = 2,
        cdLineEnd = 2, cdHeading = None\<rparr>
      \<lparr>faBuffer = [0, 0, 16, 65, 0, 0, 128, 63, 0, 0, 0, 0], faByteOffset = 4,
        faLength = 2\<rparr>
      exampleStore) = Inl DimensionMismatch
   \<and> map chunk_id (chunks (snd (addChunk
      \<lparr>cdDocumentId = 1, cdContent = ''C2'', cdChunkIndex = 1, cdLineStart = 2,
        cdLineEnd = 2, cdHeading = None\<rparr>
      \<lparr>faBuffer = [0, 0, 16, 65, 0, 0, 128, 63, 0, 0, 0, 0], faByteOffset = 4,
        faLength = 2\<rparr>
      exampleStore))) = [1, 2, 3]"
  by (simp add: addChunk_def vec0_insert_def exampleStore_def nextRowid_def bufferFrom_def
        Let_def)

text \<open>
  Claim C7. \<open>deleteDocumentChunks\<close> leaves the document rows as they are, removes exactly
  the chunk rows of the document and the embedding rows under their ids, and, the chunk
  ids being distinct, leaves the embedding rows of the other documents' chunks as they
  are. The update pass does this for the documents whose file is gone: their document
  rows stay, and the chunk rows and embedding rows that go are those of these documents.
\<close>

theorem deleteDocumentChunks_frame:
  "documents (deleteDocumentChunks d db) = documents db
   \<and> chunks (deleteDocumentChunks d db) = filter (\<lambda>c. chunk_document_id c \<noteq> d) (chunks db)
   \<and> embeddings (deleteDocumentChunks d db)
       = filter (\<lambda>e. emb_chunk_id e \<notin> chunk_id ` {c \<in> set (chunks db). chunk_document_id c = d})
           (embeddings db)
   \<and> (distinct (map chunk_id (chunks db)) \<longrightarrow>
        filter (\<lambda>e. emb_chunk_id e \<in> chunk_id ` {c \<in> set (chunks db). chunk_document_id c \<noteq> d})
           (embeddings (deleteDocumentChunks d db))
        = filter (\<lambda>e. emb_chunk_id e \<in> chunk_id ` {c \<in> set (chunks db). chunk_document_id c \<noteq> d})
           (embeddings db))
   \<and> documents (fst (deleteRemoved files db)) = documents db
   \<and> chunks (fst (deleteRemoved files db))
       = filter (\<lambda>c. chunk_document_id c
                        \<notin> doc_id ` {doc \<in> set (documents db). doc_file_path doc \<notin> set files})
           (chunks db)
   \<and> embeddings (fst (deleteRemoved files db))
       = filter (\<lambda>e. emb_chunk_id e
                        \<notin> chunk_id ` {c \<in> set (chunks db). chunk_document_id c
                             \<in> doc_id ` {doc \<in> set (documents db). doc_file_path doc \<notin> set files}})
           (embeddings db)"
proof -
  have "filter (\<lambda>e. emb_chunk_id e \<in> chunk_id ` {c \<in> set (chunks db). chunk_document_id c \<noteq> d})
           (filter (\<lambda>e. emb_chunk_id e \<notin> chunk_id ` {c \<in> set (chunks db). chunk_document_id c = d})
              (embeddings db))
        = filter (\<lambda>e. emb_chunk_id e \<in> chunk_id ` {c \<in> set (chunks db). chunk_document_id c \<noteq> d})
           (embeddings db)" if "distinct (map chunk_id (chunks db))"
    using that by (auto simp: distinct_map inj_on_def intro!: filter_cong)
  moreover have "set (removedDocuments (getAllDocuments db) files)
      = {doc \<in> set (documents db). doc_file_path doc \<notin> set files}"
    by (auto simp: removedDocuments_def getAllDocuments_def)
  ultimately show ?thesis
    using deleteLoop_frame[of "removedDocuments (getAllDocuments db) files" db 0]
    by (simp add: deleteDocumentChunks_eq deleteRemoved_def)
qed

text \<open>
  The theorem at a store of two documents with one chunk each, the file of the first
  gone.
\<close>

theorem deleteDocumentChunks_frame_witness:
  "distinct (map chunk_id (chunks exampleStore))
   \<and> filter (\<lambda>e. emb_chunk_id e
                    \<in> chunk_id ` {c \<in> set (chunks exampleStore). chunk_document_id c \<noteq> 1})
         (embeddings (deleteDocumentChunks 1 exampleStore))
       = filter (\<lambda>e. emb_chunk_id e
                    \<in> chunk_id ` {c \<in> set (chunks exampleStore). chunk_document_id c \<noteq> 1})
         (embeddings exampleStore)
   \<and> chunks (deleteDocumentChunks 1 exampleStore)
       = filter (\<lambda>c. chunk_document_id c \<noteq> 1) (chunks exampleStore)
   \<and> documents (fst (deleteRemoved [''b.md''] exampleStore)) = documents exampleStore"
proof -
  have d: "distinct (map chunk_id (chunks exampleStore))"
    by (simp add: exampleStore_def)
  from deleteDocumentChunks_frame[of 1 exampleStore "[''b.md'']"] d show ?thesis
    by blast
qed

text \<open>What the example store holds after the calls.\<close>

lemma deleteDocumentChunks_example:
  "map chunk_id (chunks (deleteDocumentChunks 1 exampleStore)) = [2]
   \<and> map emb_chunk_id (embeddings (deleteDocumentChunks 1 exampleStore)) = [2]
   \<and> map doc_file_path (documents (deleteDocumentChunks 1 exampleStore)) = [''a.md'', ''b.md'']
   \<and> map chunk_id (chunks (fst (deleteRemoved [''b.md''] exampleStore))) = [2]
   \<and> snd (deleteRemoved [''b.md''] exampleStore) = 1"
  by (simp add: deleteDocumentChunks_def deleteRemoved_def removedDocuments_def
        getAllDocuments_def exampleStore_def Let_def)

text \<open>
  Claim C9. \<open>deleteDocumentChunks\<close> is idempotent: on every store and for every document
  id, a second call in succession changes nothing.
\<close>

theorem deleteDocumentChunks_idem:
  "deleteDocumentChunks d (deleteDocumentChunks d db) = deleteDocumentChunks d db"
  by (simp add: deleteDocumentChunks_def Let_def)

lemma exampleStore_history: "runOps exampleHistory (emptyStore True 2) = exampleStore"
  by (simp add: runOps_def exampleHistory_def upsertDocument_def addChunk_def
        vec0_insert_def emptyStore_def exampleStore_def nextRowid_def bufferFrom_def
        newFloat32Array_def Let_def)

lemma exampleStore_after_delete:
  "map chunk_id (chunks (runOps (exampleHistory @ [DeleteDocumentChunks 1])
                           (emptyStore True 2))) = [2]
   \<and> map emb_chunk_id (embeddings (runOps (exampleHistory @ [DeleteDocumentChunks 1])
                                       (emptyStore True 2))) = [2]"
  using exampleStore_history
  by (simp add: runOps_def deleteDocumentChunks_def exampleStore_def Let_def)

section \<open>Properties of the search\<close>

subsection \<open>Rounding to a double\<close>

lemma roundHalfEven_of_int: "roundHalfEven (of_int n) = n"
  by (simp add: roundHalfEven_def)

lemma roundHalfEven_range: "\<lfloor>t\<rfloor> \<le> roundHalfEven t \<and> roundHalfEven t \<le> \<lfloor>t\<rfloor> + 1"
  by (simp add: roundHalfEven_def Let_def)

lemma roundHalfEven_mono:
  assumes "t \<le> u"
  shows "roundHalfEven t \<le> roundHalfEven u"
proof (cases "\<lfloor>t\<rfloor> = \<lfloor>u\<rfloor>")
  case True
  then have "t - of_int \<lfloor>t\<rfloor> \<le> u - of_int \<lfloor>u\<rfloor>" using assms by simp
  then show ?thesis using True by (auto simp: roundHalfEven_def Let_def)
next
  case False
  then have "\<lfloor>t\<rfloor> < \<lfloor>u\<rfloor>" using assms floor_mono[of t u] by linarith
  then have "roundHalfEven t \<le> \<lfloor>u\<rfloor>" using roundHalfEven_range[of t] by linarith
  then show ?thesis using roundHalfEven_range[of u] by linarith
qed

lemma roundHalfEven_ge: "of_int n \<le> t \<Longrightarrow> n \<le> roundHalfEven t"
  using roundHalfEven_mono[of "of_int n" t] by (simp add: roundHalfEven_of_int)

lemma roundHalfEven_le: "t \<le> of_int n \<Longrightarrow> roundHalfEven t \<le> n"
  using roundHalfEven_mono[of t "of_int n"] by (simp add: roundHalfEven_of_int)

text \<open>The exponent of a positive number, and the spacing of the doubles around it.\<close>

lemma binade_upper:
  assumes "0 < x"
  shows "x < 2 powr (of_int (max \<lfloor>log 2 x\<rfloor> (- 1022)) + 1)"
proof -
  have "log 2 x < of_int \<lfloor>log 2 x\<rfloor> + 1" by linarith
  also have "\<dots> \<le> of_int (max \<lfloor>log 2 x\<rfloor> (- 1022)) + 1" by simp
  finally have "log 2 x < of_int (max \<lfloor>log 2 x\<rfloor> (- 1022)) + 1" .
  then show ?thesis using assms by (simp add: less_powr_iff)
qed

lemma binade_lower:
  assumes "0 < x" and "- 1022 \<le> \<lfloor>log 2 x\<rfloor>"
  shows "2 powr of_int (max \<lfloor>log 2 x\<rfloor> (- 1022)) \<le> x"
proof -
  have "of_int \<lfloor>log 2 x\<rfloor> \<le> log 2 x" by simp
  then have "2 powr of_int \<lfloor>log 2 x\<rfloor> \<le> x" using assms(1) by (simp add: powr_le_iff)
  moreover have "max \<lfloor>log 2 x\<rfloor> (- 1022) = \<lfloor>log 2 x\<rfloor>"
    using assms(2) by (rule max_absorb1)
  ultimately show ?thesis by (simp only:)
qed

lemma doubleQuantum_pos: "0 < doubleQuantum x"
  by (simp add: doubleQuantum_def)

lemma roundMagnitude_nonneg: "0 \<le> x \<Longrightarrow> 0 \<le> roundMagnitude x"
  using roundHalfEven_ge[of 0 "x / doubleQuantum x"] doubleQuantum_pos[of x]
  by (simp add: roundMagnitude_def)

lemma powr_quantum_53: "(2::real) powr 53 * 2 powr (e - 52) = 2 powr (e + 1)"
proof -
  have "53 + (e - 52) = e + 1" by simp
  then have "(2::real) powr (e + 1) = 2 powr (53 + (e - 52))" by (simp only:)
  also have "\<dots> = 2 powr 53 * 2 powr (e - 52)" by (rule powr_add)
  finally show ?thesis by (rule sym)
qed

lemma powr_quantum_52: "(2::real) powr 52 * 2 powr (e - 52) = 2 powr e"
proof -
  have "52 + (e - 52) = e" by simp
  then have "(2::real) powr e = 2 powr (52 + (e - 52))" by (simp only:)
  also have "\<dots> = 2 powr 52 * 2 powr (e - 52)" by (rule powr_add)
  finally show ?thesis by (rule sym)
qed

lemma roundMagnitude_mono:
  assumes "0 < x" and "x \<le> y"
  shows "roundMagnitude x \<le> roundMagnitude y"
proof -
  define a b where "a = \<lfloor>log 2 x\<rfloor>" and "b = \<lfloor>log 2 y\<rfloor>"
  define ex ey where "ex = max a (- 1022)" and "ey = max b (- 1022)"
  have qx: "doubleQuantum x = 2 powr (of_int ex - 52)"
    and qy: "doubleQuantum y = 2 powr (of_int ey - 52)"
    by (simp_all add: doubleQuantum_def ex_def ey_def a_def b_def)
  have ypos: "0 < y" using assms by simp
  have "log 2 x \<le> log 2 y" using assms by simp
  then have ab: "a \<le> b" unfolding a_def b_def by (rule floor_mono)
  then have exy: "ex \<le> ey" unfolding ex_def ey_def by linarith
  show ?thesis
  proof (cases "ex = ey")
    case True
    then have q: "doubleQuantum x = doubleQuantum y" by (simp add: qx qy)
    have "x / doubleQuantum y \<le> y / doubleQuantum y"
      using assms(2) doubleQuantum_pos[of y] by (simp add: divide_right_mono)
    then have "roundHalfEven (x / doubleQuantum y) \<le> roundHalfEven (y / doubleQuantum y)"
      by (rule roundHalfEven_mono)
    then show ?thesis
      unfolding roundMagnitude_def q using doubleQuantum_pos[of y] by simp
  next
    case False
    with exy have lt: "ex < ey" by simp
    then have ylow: "- 1022 \<le> b" and eyb: "ey = b" unfolding ex_def ey_def by linarith+
    have "x / doubleQuantum x < 2 powr 53"
    proof -
      have "x < 2 powr (of_int ex + 1)"
        using binade_upper[OF assms(1)] by (simp add: ex_def a_def)
      also have "\<dots> = 2 powr 53 * doubleQuantum x"
        unfolding qx by (rule powr_quantum_53[symmetric])
      finally show ?thesis using doubleQuantum_pos[of x] by (simp add: divide_less_eq)
    qed
    then have "x / doubleQuantum x \<le> of_int (2 ^ 53)" by simp
    then have "roundHalfEven (x / doubleQuantum x) \<le> 2 ^ 53" by (rule roundHalfEven_le)
    then have "real_of_int (roundHalfEven (x / doubleQuantum x)) \<le> real_of_int (2 ^ 53)"
      by (simp only: of_int_le_iff)
    then have "of_int (roundHalfEven (x / doubleQuantum x)) \<le> (2::real) powr 53"
      by simp
    then have "roundMagnitude x \<le> 2 powr 53 * doubleQuantum x"
      unfolding roundMagnitude_def using doubleQuantum_pos[of x] by simp
    also have "\<dots> = 2 powr (of_int ex + 1)"
      unfolding qx by (rule powr_quantum_53)
    also have "\<dots> \<le> 2 powr of_int ey" using lt by simp
    finally have up: "roundMagnitude x \<le> 2 powr of_int ey" .
    have "2 powr of_int ey \<le> y"
      using binade_lower[OF ypos] ylow by (simp add: ey_def b_def)
    then have "2 powr 52 * doubleQuantum y \<le> y"
      unfolding qy by (simp only: powr_quantum_52)
    then have "of_int (2 ^ 52) \<le> y / doubleQuantum y"
      using doubleQuantum_pos[of y] by (simp add: le_divide_eq)
    then have "2 ^ 52 \<le> roundHalfEven (y / doubleQuantum y)" by (rule roundHalfEven_ge)
    then have "real_of_int (2 ^ 52) \<le> real_of_int (roundHalfEven (y / doubleQuantum y))"
      by (simp only: of_int_le_iff)
    then have "(2::real) powr 52 \<le> of_int (roundHalfEven (y / doubleQuantum y))"
      by simp
    then have "2 powr 52 * doubleQuantum y \<le> roundMagnitude y"
      unfolding roundMagnitude_def using doubleQuantum_pos[of y] by simp
    moreover have "2 powr 52 * doubleQuantum y = 2 powr of_int ey"
      unfolding qy by (rule powr_quantum_52)
    ultimately show ?thesis using up by linarith
  qed
qed

lemma doubleQuantum_binade:
  assumes "0 < x" and "2 powr of_int e \<le> x" and "x < 2 powr (of_int e + 1)"
    and "- 1022 \<le> e"
  shows "doubleQuantum x = 2 powr (of_int e - 52)"
proof -
  have "\<lfloor>log 2 x\<rfloor> = e"
    using assms(1-3) by (simp add: floor_log_eq_powr_iff)
  moreover have "max e (- 1022) = e" using assms(4) by (rule max_absorb1)
  ultimately show ?thesis by (simp only: doubleQuantum_def)
qed

lemma roundMagnitude_one: "roundMagnitude 1 = 1"
proof -
  have q: "doubleQuantum 1 = 2 powr (of_int 0 - 52)"
    by (rule doubleQuantum_binade) simp_all
  have "1 / doubleQuantum 1 = of_int (2 ^ 52)"
    unfolding q by (simp add: powr_minus field_simps)
  then have "roundHalfEven (1 / doubleQuantum 1) = 2 ^ 52"
    by (simp only: roundHalfEven_of_int)
  then show ?thesis
    unfolding roundMagnitude_def by (simp add: q powr_minus)
qed

text \<open>Up to a half of the spacing above 1 a number rounds to 1: the tie goes to the even side.\<close>

lemma roundMagnitude_near_one:
  assumes "0 \<le> d" and "d \<le> 1 / 2 ^ 53"
  shows "roundMagnitude (1 + d) = 1"
proof -
  have q: "doubleQuantum (1 + d) = 2 powr (of_int 0 - 52)"
  proof (rule doubleQuantum_binade)
    have "d < 1" using assms(2) by (rule order_le_less_trans) simp
    then show "1 + d < 2 powr (of_int 0 + 1)" by simp
  qed (use assms in simp_all)
  have t: "(1 + d) / doubleQuantum (1 + d) = 2 ^ 52 + d * 2 ^ 52"
    unfolding q by (simp add: powr_minus field_simps)
  have half: "d * 2 ^ 52 \<le> 1 / 2" using assms(2) by (simp add: field_simps)
  have nonneg: "0 \<le> d * 2 ^ 52" using assms(1) by simp
  have fl: "\<lfloor>(2::real) ^ 52 + d * 2 ^ 52\<rfloor> = 2 ^ 52"
    using half nonneg by (simp add: floor_eq_iff)
  have "roundHalfEven (2 ^ 52 + d * 2 ^ 52) = 2 ^ 52"
    using half nonneg unfolding roundHalfEven_def fl by (simp add: Let_def)
  then show ?thesis
    unfolding roundMagnitude_def t by (simp add: q powr_minus)
qed

lemma roundMagnitude_max: "roundMagnitude (1 + MAX_VALUE) = MAX_VALUE"
proof -
  have q: "doubleQuantum (1 + MAX_VALUE) = 2 powr (of_int 1023 - 52)"
    by (rule doubleQuantum_binade) (simp_all add: MAX_VALUE_def)
  have q': "doubleQuantum (1 + MAX_VALUE) = 2 ^ 971"
    unfolding q by simp
  have t: "(1 + MAX_VALUE) / 2 ^ 971 = (2 ^ 53 - 1) + 1 / 2 ^ 971"
    by (simp add: MAX_VALUE_def field_simps)
  have fl: "\<lfloor>((2::real) ^ 53 - 1) + 1 / 2 ^ 971\<rfloor> = 2 ^ 53 - 1"
    by (simp add: floor_eq_iff)
  have "roundHalfEven ((2 ^ 53 - 1) + 1 / 2 ^ 971) = 2 ^ 53 - 1"
    unfolding roundHalfEven_def fl by (simp add: Let_def)
  then show ?thesis
    unfolding roundMagnitude_def q' t by (simp add: MAX_VALUE_def)
qed

lemma roundMagnitude_tiny: "roundMagnitude (2 powr (- 1024)) = 2 powr (- 1024)"
proof -
  have "\<lfloor>log 2 (2 powr (- 1024))\<rfloor> = (- 1024 :: int)" by simp
  then have q: "doubleQuantum (2 powr (- 1024)) = 2 powr (- 1074)"
    unfolding doubleQuantum_def by simp
  have "2 powr (- 1024) / 2 powr (- 1074) = (2::real) powr (- 1024 - (- 1074))"
    by (simp only: powr_diff)
  then have t: "2 powr (- 1024) / 2 powr (- 1074) = real_of_int (2 ^ 50)" by simp
  have "of_int (2 ^ 50) * 2 powr (- 1074) = (2::real) powr (50 + (- 1074))"
    by (simp only: powr_add) simp
  then have "real_of_int (2 ^ 50) * 2 powr (- 1074) = 2 powr (- 1024)" by simp
  then show ?thesis
    unfolding roundMagnitude_def q t by (simp only: roundHalfEven_of_int)
qed

lemma roundMagnitude_ge_one: "1 \<le> x \<Longrightarrow> 1 \<le> roundMagnitude x"
  using roundMagnitude_mono[of 1 x] by (simp add: roundMagnitude_one)

lemma roundMagnitude_le_one: "0 < x \<Longrightarrow> x \<le> 1 \<Longrightarrow> roundMagnitude x \<le> 1"
  using roundMagnitude_mono[of x 1] by (simp add: roundMagnitude_one)

lemma jsScore_Fin:
  assumes "0 \<le> d"
  shows "jsScore (Fin d) = Fin (scoreValue d)"
proof (cases "2 powr 1024 \<le> roundMagnitude (1 + d)")
  case True
  then have "roundDouble (1 + d) = Infinity"
    using assms by (simp add: roundDouble_def Let_def)
  then show ?thesis using True by (simp add: jsScore_def scoreValue_def)
next
  case False
  let ?y = "roundMagnitude (1 + d)"
  have y1: "1 \<le> ?y" using assms by (intro roundMagnitude_ge_one) simp
  have plus: "roundDouble (1 + d) = Fin ?y"
    using assms False by (simp add: roundDouble_def Let_def)
  have "roundMagnitude (1 / ?y) \<le> 1"
    using y1 by (intro roundMagnitude_le_one) simp_all
  also have "(1::real) < 2 powr 1024" by simp
  finally have small: "\<not> 2 powr 1024 \<le> roundMagnitude (1 / ?y)" by simp
  have "roundDouble (1 / ?y) = Fin (roundMagnitude (1 / ?y))"
    using y1 small by (simp add: roundDouble_def Let_def)
  then show ?thesis
    using y1 plus False by (simp add: jsScore_def scoreValue_def)
qed

lemma scoreValue_nonneg: "0 \<le> d \<Longrightarrow> 0 \<le> scoreValue d"
  by (simp add: scoreValue_def roundMagnitude_nonneg)

lemma scoreValue_antimono:
  assumes "0 \<le> d" and "d \<le> d'"
  shows "scoreValue d' \<le> scoreValue d"
proof (cases "2 powr 1024 \<le> roundMagnitude (1 + d')")
  case True
  then show ?thesis using scoreValue_nonneg[OF assms(1)] by (simp add: scoreValue_def)
next
  case False
  let ?y = "roundMagnitude (1 + d)" and ?y' = "roundMagnitude (1 + d')"
  have yy: "?y \<le> ?y'" using assms by (intro roundMagnitude_mono) simp_all
  then have nov: "\<not> 2 powr 1024 \<le> ?y" using False by simp
  have y1: "1 \<le> ?y" using assms by (intro roundMagnitude_ge_one) simp
  have y1': "1 \<le> ?y'" using y1 yy by simp
  have "1 / ?y' \<le> 1 / ?y" using yy y1 by (simp add: frac_le)
  moreover have "0 < 1 / ?y'" using y1' by simp
  ultimately have "roundMagnitude (1 / ?y') \<le> roundMagnitude (1 / ?y)"
    by (intro roundMagnitude_mono)
  then show ?thesis using False nov by (simp add: scoreValue_def)
qed

lemma jsScore_antimono:
  assumes "jsLe (Fin 0) a" and "jsLe a b"
  shows "jsLe (jsScore b) (jsScore a)"
proof (cases a)
  case (Fin x)
  with assms(1) have x0: "0 \<le> x" by simp
  show ?thesis
  proof (cases b)
    case (Fin y)
    with assms(2) \<open>a = Fin x\<close> have xy: "x \<le> y" by simp
    then have "0 \<le> y" using x0 by simp
    then show ?thesis
      using Fin \<open>a = Fin x\<close> x0 xy scoreValue_antimono[OF x0 xy]
      by (simp add: jsScore_Fin)
  next
    case Infinity
    then show ?thesis
      using \<open>a = Fin x\<close> x0 scoreValue_nonneg[OF x0]
      by (simp add: jsScore_Fin) (simp add: jsScore_def)
  next
    case NegInfinity
    with assms(2) \<open>a = Fin x\<close> show ?thesis by simp
  qed
next
  case Infinity
  with assms(2) have "b = Infinity" by (cases b) simp_all
  then show ?thesis using Infinity by (simp add: jsScore_def)
next
  case NegInfinity
  with assms(1) show ?thesis by simp
qed

lemma MAX_VALUE_bounds: "1 \<le> MAX_VALUE" "MAX_VALUE < 2 powr 1024"
  "2 powr (- 1024) \<le> 1 / MAX_VALUE"
proof -
  show "1 \<le> MAX_VALUE" and lt: "MAX_VALUE < 2 powr 1024" by (simp_all add: MAX_VALUE_def)
  have "0 < MAX_VALUE" by (simp add: MAX_VALUE_def)
  then have "1 / 2 powr 1024 \<le> 1 / MAX_VALUE"
    using lt by (intro divide_left_mono) simp_all
  then show "2 powr (- 1024) \<le> 1 / MAX_VALUE" by (simp add: powr_minus_divide)
qed

lemma scoreValue_bounds:
  assumes "0 \<le> d" and "d \<le> MAX_VALUE"
  shows "0 < scoreValue d" and "scoreValue d \<le> 1"
proof -
  let ?y = "roundMagnitude (1 + d)"
  have "?y \<le> roundMagnitude (1 + MAX_VALUE)"
    using assms by (intro roundMagnitude_mono) simp_all
  then have ymax: "?y \<le> MAX_VALUE" by (simp only: roundMagnitude_max)
  then have nov: "\<not> 2 powr 1024 \<le> ?y" using MAX_VALUE_bounds(2) by linarith
  have y1: "1 \<le> ?y" using assms(1) by (intro roundMagnitude_ge_one) simp
  have "2 powr (- 1024) \<le> 1 / MAX_VALUE" by (rule MAX_VALUE_bounds(3))
  also have "\<dots> \<le> 1 / ?y" using ymax y1 by (intro divide_left_mono) simp_all
  finally have "roundMagnitude (2 powr (- 1024)) \<le> roundMagnitude (1 / ?y)"
    by (intro roundMagnitude_mono) simp_all
  then have "0 < roundMagnitude (1 / ?y)"
    unfolding roundMagnitude_tiny
    by (rule order_less_le_trans[rotated]) simp
  then show "0 < scoreValue d" using nov by (simp add: scoreValue_def)
  have "roundMagnitude (1 / ?y) \<le> 1" using y1 by (intro roundMagnitude_le_one) simp_all
  then show "scoreValue d \<le> 1" using nov by (simp add: scoreValue_def)
qed

lemma roundHalfEven_above_half:
  assumes "of_int n + 1 / 2 < t"
  shows "n + 1 \<le> roundHalfEven t"
proof (cases "n + 1 \<le> \<lfloor>t\<rfloor>")
  case True
  then show ?thesis using roundHalfEven_range[of t] by linarith
next
  case False
  moreover have "n \<le> \<lfloor>t\<rfloor>" using assms by linarith
  ultimately have fl: "\<lfloor>t\<rfloor> = n" by linarith
  then have "1 / 2 < t - of_int \<lfloor>t\<rfloor>" using assms by simp
  then show ?thesis using fl by (simp add: roundHalfEven_def Let_def)
qed

lemma roundMagnitude_above_one:
  assumes "1 / 2 ^ 53 < d"
  shows "1 + 1 / 2 ^ 52 \<le> roundMagnitude (1 + d)"
proof -
  define d0 where "d0 = min d (1 / 2)"
  have d0: "1 / 2 ^ 53 < d0" "d0 \<le> 1 / 2" "d0 \<le> d"
    using assms by (simp_all add: d0_def)
  have q: "doubleQuantum (1 + d0) = 2 powr (of_int 0 - 52)"
    by (rule doubleQuantum_binade) (use d0 in simp_all)
  have t: "(1 + d0) / doubleQuantum (1 + d0) = 2 ^ 52 + d0 * 2 ^ 52"
    unfolding q by (simp add: powr_minus field_simps)
  have "real_of_int (2 ^ 52) + 1 / 2 < 2 ^ 52 + d0 * 2 ^ 52"
    using d0(1) by (simp add: field_simps)
  then have "2 ^ 52 + 1 \<le> roundHalfEven (2 ^ 52 + d0 * 2 ^ 52)"
    by (rule roundHalfEven_above_half)
  then have "real_of_int (2 ^ 52 + 1) \<le> real_of_int (roundHalfEven (2 ^ 52 + d0 * 2 ^ 52))"
    by (simp only: of_int_le_iff)
  then have "(2 ^ 52 + 1) * 2 powr (- 52) \<le> roundMagnitude (1 + d0)"
    unfolding roundMagnitude_def t by (simp add: q)
  then have "1 + 1 / 2 ^ 52 \<le> roundMagnitude (1 + d0)"
    by (simp add: powr_minus field_simps)
  also have "\<dots> \<le> roundMagnitude (1 + d)"
    using d0 by (intro roundMagnitude_mono) simp_all
  finally show ?thesis .
qed

lemma roundMagnitude_below_one: "roundMagnitude (1 - 1 / 2 ^ 53) = 1 - 1 / 2 ^ 53"
proof -
  have q: "doubleQuantum (1 - 1 / 2 ^ 53) = 2 powr (of_int (- 1) - 52)"
    by (rule doubleQuantum_binade) (simp_all add: powr_minus)
  have "(1 - 1 / 2 ^ 53) / doubleQuantum (1 - 1 / 2 ^ 53) = real_of_int (2 ^ 53 - 1)"
    unfolding q by (simp add: powr_minus field_simps)
  then have "roundHalfEven ((1 - 1 / 2 ^ 53) / doubleQuantum (1 - 1 / 2 ^ 53)) = 2 ^ 53 - 1"
    by (simp only: roundHalfEven_of_int)
  then have "roundMagnitude (1 - 1 / 2 ^ 53) = real_of_int (2 ^ 53 - 1) * 2 powr (of_int (- 1) - 52)"
    unfolding roundMagnitude_def by (simp only: q)
  also have "\<dots> = 1 - 1 / 2 ^ 53" by (simp add: powr_minus field_simps)
  finally show ?thesis .
qed

lemma scoreValue_one_iff:
  assumes "0 \<le> d"
  shows "scoreValue d = 1 \<longleftrightarrow> d \<le> 1 / 2 ^ 53"
proof
  assume "d \<le> 1 / 2 ^ 53"
  then have "roundMagnitude (1 + d) = 1" using assms by (intro roundMagnitude_near_one)
  then show "scoreValue d = 1" by (simp add: scoreValue_def roundMagnitude_one)
next
  assume one: "scoreValue d = 1"
  show "d \<le> 1 / 2 ^ 53"
  proof (rule ccontr)
    assume "\<not> d \<le> 1 / 2 ^ 53"
    then have big: "1 / 2 ^ 53 < d" by simp
    let ?y = "roundMagnitude (1 + d)"
    from one have nov: "\<not> 2 powr 1024 \<le> ?y" by (auto simp: scoreValue_def split: if_splits)
    have y: "1 + 1 / 2 ^ 52 \<le> ?y" by (rule roundMagnitude_above_one[OF big])
    then have "1 / ?y \<le> 1 / (1 + 1 / 2 ^ 52)" by (intro divide_left_mono) simp_all
    also have "\<dots> \<le> 1 - 1 / 2 ^ 53" by (simp add: field_simps)
    finally have "roundMagnitude (1 / ?y) \<le> roundMagnitude (1 - 1 / 2 ^ 53)"
      using y by (intro roundMagnitude_mono) simp_all
    then have "roundMagnitude (1 / ?y) < 1"
      unfolding roundMagnitude_below_one by simp
    then show False using one nov by (simp add: scoreValue_def)
  qed
qed

subsection \<open>The order of the rows\<close>

lemma jsLe_refl: "jsLe a a"
  by (cases a) simp_all

lemma jsLe_total: "jsLe a b \<or> jsLe b a"
  by (cases a; cases b) auto

lemma jsLe_trans: "jsLe a b \<Longrightarrow> jsLe b c \<Longrightarrow> jsLe a c"
  by (cases a; cases b; cases c) auto

lemma set_insertBy: "set (insertBy key x xs) = insert x (set xs)"
  by (induction xs) auto

lemma length_insertBy: "length (insertBy key x xs) = Suc (length xs)"
  by (induction xs) auto

lemma sorted_insertBy:
  "sorted_wrt (\<lambda>a b. jsLe (key a) (key b)) xs
   \<Longrightarrow> sorted_wrt (\<lambda>a b. jsLe (key a) (key b)) (insertBy key x xs)"
proof (induction xs)
  case Nil
  then show ?case by simp
next
  case (Cons y ys)
  show ?case
  proof (cases "jsLe (key x) (key y)")
    case True
    then show ?thesis using Cons.prems by (auto intro: jsLe_trans)
  next
    case False
    then have "jsLe (key y) (key x)" using jsLe_total by blast
    then show ?thesis using False Cons by (auto simp: set_insertBy)
  qed
qed

lemma set_orderBy: "set (orderBy key xs) = set xs"
  unfolding orderBy_def by (induction xs) (simp_all add: set_insertBy)

lemma length_orderBy: "length (orderBy key xs) = length xs"
  unfolding orderBy_def by (induction xs) (simp_all add: length_insertBy)

lemma sorted_orderBy: "sorted_wrt (\<lambda>a b. jsLe (key a) (key b)) (orderBy key xs)"
  unfolding orderBy_def by (induction xs) (simp_all add: sorted_insertBy)

subsection \<open>The joins\<close>

text \<open>Where the keys are distinct, a join adds no row.\<close>

lemma filter_key_le_one:
  "distinct (map f xs) \<Longrightarrow> length (filter (\<lambda>x. f x = i) xs) \<le> 1"
proof (induction xs)
  case Nil
  then show ?case by simp
next
  case (Cons x xs)
  show ?case
  proof (cases "f x = i")
    case True
    then have "filter (\<lambda>x. f x = i) xs = []"
      using Cons.prems by (auto simp: filter_empty_conv image_iff)
    then show ?thesis using True by simp
  next
    case False
    then show ?thesis using Cons by simp
  qed
qed

lemma length_concat_le:
  "(\<And>x. x \<in> set xs \<Longrightarrow> length (g x) \<le> 1) \<Longrightarrow> length (concat (map g xs)) \<le> length xs"
proof (induction xs)
  case Nil
  then show ?case by simp
next
  case (Cons x xs)
  have "length (g x) \<le> 1" using Cons.prems by simp
  moreover have "length (concat (map g xs)) \<le> length xs" using Cons by simp
  ultimately show ?case by simp
qed

lemma length_joinRows:
  assumes "distinct (map doc_id ds)" and "distinct (map chunk_id cs)"
  shows "length (joinRows es cs ds) \<le> length es"
  unfolding joinRows_def
proof (rule length_concat_le)
  fix e
  let ?rows = "concat (map (\<lambda>c. map (\<lambda>d. (e, c, d))
                              (filter (\<lambda>d. doc_id d = chunk_document_id c) ds))
                  (filter (\<lambda>c. chunk_id c = knn_chunk_id e) cs))"
  have "length ?rows \<le> length (filter (\<lambda>c. chunk_id c = knn_chunk_id e) cs)"
    using filter_key_le_one[OF assms(1)] by (intro length_concat_le) simp
  also have "\<dots> \<le> 1" by (rule filter_key_le_one[OF assms(2)])
  finally show "length ?rows \<le> 1" .
qed

lemma joinRows_fst: "(e, c, d) \<in> set (joinRows es cs ds) \<Longrightarrow> e \<in> set es"
  by (auto simp: joinRows_def)


subsection \<open>The accuracy of the score\<close>

text \<open>Rounding moves a number by at most half the spacing of the doubles around it.\<close>

lemma roundHalfEven_error: "\<bar>of_int (roundHalfEven t) - t\<bar> \<le> 1 / 2"
proof -
  have "of_int \<lfloor>t\<rfloor> \<le> t" "t < of_int \<lfloor>t\<rfloor> + 1" by linarith+
  then show ?thesis
    unfolding roundHalfEven_def Let_def by (auto simp: abs_le_iff)
qed

lemma roundMagnitude_error: "\<bar>roundMagnitude x - x\<bar> \<le> doubleQuantum x / 2"
proof -
  let ?q = "doubleQuantum x"
  have q: "0 < ?q" by (rule doubleQuantum_pos)
  have "roundMagnitude x - x = (of_int (roundHalfEven (x / ?q)) - x / ?q) * ?q"
    using q by (simp add: roundMagnitude_def field_simps)
  then have "\<bar>roundMagnitude x - x\<bar> = \<bar>of_int (roundHalfEven (x / ?q)) - x / ?q\<bar> * ?q"
    using q by (simp add: abs_mult)
  also have "\<dots> \<le> 1 / 2 * ?q"
    using q roundHalfEven_error[of "x / ?q"] by (intro mult_right_mono) simp_all
  finally show ?thesis by simp
qed

lemma doubleQuantum_le_one:
  assumes "0 < x" and "x \<le> 1"
  shows "doubleQuantum x \<le> 1 / 2 ^ 52"
proof -
  have "log 2 x \<le> 0" using assms by simp
  then have "\<lfloor>log 2 x\<rfloor> \<le> 0" by linarith
  then have "max \<lfloor>log 2 x\<rfloor> (- 1022) \<le> 0" by simp
  then have "real_of_int (max \<lfloor>log 2 x\<rfloor> (- 1022)) - 52 \<le> - 52" by linarith
  then have "doubleQuantum x \<le> 2 powr (- 52)"
    unfolding doubleQuantum_def by (intro powr_mono) simp_all
  then show ?thesis by (simp add: powr_minus_divide)
qed

lemma doubleQuantum_ge_one:
  assumes "1 \<le> x"
  shows "doubleQuantum x \<le> x / 2 ^ 52"
proof -
  have "0 \<le> log 2 x" using assms by simp
  then have "0 \<le> \<lfloor>log 2 x\<rfloor>" by linarith
  then have m: "max \<lfloor>log 2 x\<rfloor> (- 1022) = \<lfloor>log 2 x\<rfloor>" by simp
  have "2 powr (of_int \<lfloor>log 2 x\<rfloor>) \<le> 2 powr (log 2 x)"
    by (intro powr_mono) simp_all
  also have "\<dots> = x" using assms by simp
  finally have "2 powr (of_int \<lfloor>log 2 x\<rfloor>) \<le> x" .
  moreover have "doubleQuantum x = 2 powr (of_int \<lfloor>log 2 x\<rfloor>) / 2 ^ 52"
    unfolding doubleQuantum_def m by (simp add: powr_diff)
  ultimately show ?thesis by (simp add: divide_right_mono)
qed

lemma scoreValue_error:
  assumes "0 \<le> d" and "d \<le> MAX_VALUE"
  shows "\<bar>scoreValue d - 1 / (1 + d)\<bar> \<le> 1 / 2 ^ 52"
proof -
  let ?x = "1 + d"
  let ?y = "roundMagnitude ?x"
  have x1: "1 \<le> ?x" using assms by simp
  have "?y \<le> roundMagnitude (1 + MAX_VALUE)"
    using assms by (intro roundMagnitude_mono) simp_all
  then have "?y \<le> MAX_VALUE" by (simp only: roundMagnitude_max)
  then have nov: "\<not> 2 powr 1024 \<le> ?y" using MAX_VALUE_bounds(2) by linarith
  have y1: "1 \<le> ?y" using x1 by (rule roundMagnitude_ge_one)
  have "\<bar>?y - ?x\<bar> \<le> doubleQuantum ?x / 2" by (rule roundMagnitude_error)
  also have "\<dots> \<le> ?x / 2 ^ 52 / 2" using doubleQuantum_ge_one[OF x1] by simp
  finally have e1: "\<bar>?y - ?x\<bar> \<le> ?x / 2 ^ 53" by simp
  have "\<bar>1 / ?y - 1 / ?x\<bar> = \<bar>?x - ?y\<bar> / (?y * ?x)"
    using x1 y1 by (simp add: field_simps abs_divide)
  also have "\<dots> \<le> (?x / 2 ^ 53) / (?y * ?x)"
    using e1 x1 y1 by (intro divide_right_mono) (simp_all add: abs_minus_commute)
  also have "\<dots> = 1 / 2 ^ 53 / ?y" using x1 by simp
  also have "\<dots> \<le> 1 / 2 ^ 53 / 1" using y1 by (intro divide_left_mono) simp_all
  finally have e2: "\<bar>1 / ?y - 1 / ?x\<bar> \<le> 1 / 2 ^ 53" by simp
  have "\<bar>roundMagnitude (1 / ?y) - 1 / ?y\<bar> \<le> doubleQuantum (1 / ?y) / 2"
    by (rule roundMagnitude_error)
  also have "\<dots> \<le> 1 / 2 ^ 52 / 2"
    using doubleQuantum_le_one[of "1 / ?y"] y1 by simp
  finally have e3: "\<bar>roundMagnitude (1 / ?y) - 1 / ?y\<bar> \<le> 1 / 2 ^ 53" by simp
  have s: "scoreValue d = roundMagnitude (1 / ?y)" using nov by (simp add: scoreValue_def)
  have "\<bar>roundMagnitude (1 / ?y) - 1 / ?x\<bar>
          \<le> \<bar>roundMagnitude (1 / ?y) - 1 / ?y\<bar> + \<bar>1 / ?y - 1 / ?x\<bar>"
    by linarith
  also have "\<dots> \<le> 1 / 2 ^ 53 + 1 / 2 ^ 53" using e2 e3 by (rule add_mono[rotated])
  also have "\<dots> = 1 / 2 ^ 52" by simp
  finally show ?thesis unfolding s .
qed

subsection \<open>The ranking\<close>

lemma finiteDistance_Fin:
  "finiteDistance a \<Longrightarrow> \<exists>d. a = Fin d \<and> 0 \<le> d \<and> d \<le> MAX_VALUE"
  by (cases a) simp_all

lemma resultRow_fields:
  "srDistance (resultRow (e, c, d)) = knn_distance e"
  "srScore (resultRow (e, c, d)) = jsScore (knn_distance e)"
  by (simp_all add: resultRow_def)

lemma search_rows:
  assumes "ownBuffer q" and "faLength q = embeddingDimension db"
  shows "search metric q (Some k) db =
           Inr (map resultRow (orderBy (\<lambda>(e, c, d). knn_distance e)
                  (joinRows (take k (orderBy knn_distance
                      (map (\<lambda>e. \<lparr>knn_chunk_id = emb_chunk_id e,
                                  knn_distance = metric (viewBytes q) (emb_embedding e)\<rparr>)
                         (embeddings db))))
                    (chunks db) (documents db))))"
proof -
  have "bufferFrom q = viewBytes q" and "length (bufferFrom q) = 4 * embeddingDimension db"
    using assms by (simp_all add: ownBuffer_def bufferFrom_def viewBytes_def)
  then show ?thesis by (simp add: search_def vec0_knn_def Let_def)
qed


lemma distinct_documents_applyOp:
  assumes "distinct (map doc_id (documents db))"
  shows "distinct (map doc_id (documents (applyOp op db)))"
proof (cases op)
  case (UpsertDocument meta now)
  have fresh: "nextRowid (documents_seq db) (map doc_id (documents db))
                 \<notin> doc_id ` set (documents db)"
    using nextRowid_fresh[of _ "map doc_id (documents db)" "documents_seq db"] by force
  have same: "doc_id \<circ> (\<lambda>d. if doc_id d = i then d\<lparr>doc_title := a, doc_last_modified := b,
                  doc_file_hash := c, doc_updated_at := e\<rparr> else d) = doc_id"
    for i a b c e
    by (rule ext) simp
  show ?thesis
    using assms fresh unfolding UpsertDocument
    by (simp add: upsertDocument_def Let_def same split: option.splits)
next
  case (AddChunk chunk embedding)
  then show ?thesis using assms
    by (simp add: addChunk_def Let_def split: sum.splits)
next
  case (DeleteDocumentChunks documentId)
  then show ?thesis using assms by (simp add: deleteDocumentChunks_def Let_def)
qed

lemma distinct_documents_fold:
  "distinct (map doc_id (documents db))
   \<Longrightarrow> distinct (map doc_id (documents (fold applyOp ops db)))"
  by (induction ops arbitrary: db) (simp_all add: distinct_documents_applyOp)

text \<open>The vectors and the distances of the examples, and their scores.\<close>

lemma float32_zero: "float32 [0, 0, 0, 0] = 0"
  by (simp add: float32_def leBits_def)

lemma float32_one: "float32 [0, 0, 128, 63] = 1"
  by (simp add: float32_def leBits_def powr_minus_divide)

lemma float32_tiny: "float32 [0, 0, 128, 33] = 1 / 2 ^ 60"
  by (simp add: float32_def leBits_def powr_minus_divide)

lemma distance_l2_same:
  "distance_l2 [0, 0, 128, 63, 0, 0, 0, 0] [0, 0, 128, 63, 0, 0, 0, 0] = Fin 0"
  by (simp add: distance_l2_def float32_zero float32_one)

lemma distance_l2_across:
  "distance_l2 [0, 0, 128, 63, 0, 0, 0, 0] [0, 0, 0, 0, 0, 0, 128, 63] = Fin (sqrt 2)"
  by (simp add: distance_l2_def float32_zero float32_one)

lemma distance_l2_tiny:
  "distance_l2 [0, 0, 0, 0, 0, 0, 0, 0] [0, 0, 128, 33, 0, 0, 0, 0] = Fin (1 / 2 ^ 60)"
proof -
  have "sqrt ((1 / 2 ^ 60)\<^sup>2) = (1 / 2 ^ 60 :: real)" by (simp only: real_sqrt_abs) simp
  then show ?thesis
    by (simp add: distance_l2_def float32_zero float32_tiny del: real_sqrt_abs)
qed

lemma roundDouble_one: "roundDouble 1 = Fin 1"
  by (simp add: roundDouble_def roundMagnitude_one)

lemma score_zero: "jsScore (Fin 0) = Fin 1"
  by (simp add: jsScore_def roundDouble_one)

lemma score_tiny: "jsScore (Fin (1 / 2 ^ 60)) = Fin 1"
proof -
  have "roundMagnitude (1 + 1 / 2 ^ 60) = 1" by (rule roundMagnitude_near_one) simp_all
  then have "roundDouble (1 + 1 / 2 ^ 60) = Fin 1" by (simp add: roundDouble_def del: One_nat_def)
  then show ?thesis by (simp add: jsScore_def roundDouble_one)
qed

text \<open>
  Claim C4, as amended. On a store whose document ids and chunk ids are distinct (they
  are primary keys), for every query vector of the dimension of the store that spans its
  buffer, every \<open>k\<close> of at least 1 and every metric whose distances to the stored vectors
  are doubles that are not negative, \<open>search\<close> returns at most \<open>k\<close> results, sorted by
  non-decreasing distance and by non-increasing score. The score of each result is the
  double that \<open>1 / (1 + distance)\<close> evaluates to, within 2 to the power \<open>-52\<close> of the exact
  quotient; it is above 0 and at most 1, and it is 1 exactly when the distance is at
  most 2 to the power \<open>-53\<close>: at distance 0, and at the distances so close to 0 that the
  sum rounds to 1.
\<close>

theorem search_ranking:
  assumes "distinct (map doc_id (documents db))" and "distinct (map chunk_id (chunks db))"
    and "ownBuffer q" and "faLength q = embeddingDimension db" and "1 \<le> k"
    and "list_all (\<lambda>e. finiteDistance (metric (viewBytes q) (emb_embedding e))) (embeddings db)"
  shows "\<exists>rs. search metric q (Some k) db = Inr rs
           \<and> length rs \<le> k
           \<and> sorted_wrt (\<lambda>a b. jsLe (srDistance a) (srDistance b)) rs
           \<and> sorted_wrt (\<lambda>a b. jsLe (srScore b) (srScore a)) rs
           \<and> list_all (\<lambda>r. \<exists>d s. srDistance r = Fin d \<and> srScore r = Fin s
                  \<and> Fin s = jsScore (Fin d)
                  \<and> \<bar>s - 1 / (1 + d)\<bar> \<le> 1 / 2 ^ 52
                  \<and> 0 < s \<and> s \<le> 1 \<and> (s = 1 \<longleftrightarrow> d \<le> 1 / 2 ^ 53)) rs"
proof -
  define nearest where "nearest = take k (orderBy knn_distance
      (map (\<lambda>e. \<lparr>knn_chunk_id = emb_chunk_id e,
                  knn_distance = metric (viewBytes q) (emb_embedding e)\<rparr>) (embeddings db)))"
  define joined where "joined = orderBy (\<lambda>(e, c, d). knn_distance e)
      (joinRows nearest (chunks db) (documents db))"
  define rs where "rs = map resultRow joined"
  have run: "search metric q (Some k) db = Inr rs"
    unfolding rs_def joined_def nearest_def by (rule search_rows[OF assms(3,4)])
  have "length rs \<le> length nearest"
    unfolding rs_def joined_def
    using length_joinRows[OF assms(1,2), of nearest] by (simp add: length_orderBy)
  moreover have "length nearest \<le> k" unfolding nearest_def by simp
  ultimately have len: "length rs \<le> k" by linarith
  have "sorted_wrt (\<lambda>a b. jsLe ((\<lambda>(e, c, d). knn_distance e) a)
                             ((\<lambda>(e, c, d). knn_distance e) b)) joined"
    unfolding joined_def by (rule sorted_orderBy)
  then have "sorted_wrt (\<lambda>a b. jsLe (srDistance (resultRow a)) (srDistance (resultRow b))) joined"
    by (rule sorted_wrt_mono_rel[rotated]) (auto simp: resultRow_fields)
  then have byDistance: "sorted_wrt (\<lambda>a b. jsLe (srDistance a) (srDistance b)) rs"
    unfolding rs_def by (simp add: sorted_wrt_map)
  have fin: "finiteDistance (srDistance r) \<and> srScore r = jsScore (srDistance r)"
    if "r \<in> set rs" for r
  proof -
    from that obtain e c d where row: "(e, c, d) \<in> set joined" and r: "r = resultRow (e, c, d)"
      unfolding rs_def by auto
    from row have "e \<in> set nearest"
      unfolding joined_def by (auto simp: set_orderBy dest: joinRows_fst)
    then have "e \<in> set (map (\<lambda>e. \<lparr>knn_chunk_id = emb_chunk_id e,
                  knn_distance = metric (viewBytes q) (emb_embedding e)\<rparr>) (embeddings db))"
      unfolding nearest_def using set_orderBy in_set_takeD by fastforce
    then have "finiteDistance (knn_distance e)"
      using assms(6) by (auto simp: list_all_iff)
    then show ?thesis by (simp add: r resultRow_fields)
  qed
  have byScore: "sorted_wrt (\<lambda>a b. jsLe (srScore b) (srScore a)) rs"
  proof (rule sorted_wrt_mono_rel[OF _ byDistance])
    fix a b
    assume a: "a \<in> set rs" and b: "b \<in> set rs" and le: "jsLe (srDistance a) (srDistance b)"
    from fin[OF a] obtain d where "srDistance a = Fin d" "0 \<le> d"
      using finiteDistance_Fin by blast
    then have "jsLe (Fin 0) (srDistance a)" by simp
    from jsScore_antimono[OF this le] show "jsLe (srScore b) (srScore a)"
      using fin[OF a] fin[OF b] by simp
  qed
  have each: "\<exists>d s. srDistance r = Fin d \<and> srScore r = Fin s
                  \<and> Fin s = jsScore (Fin d)
                  \<and> \<bar>s - 1 / (1 + d)\<bar> \<le> 1 / 2 ^ 52
                  \<and> 0 < s \<and> s \<le> 1 \<and> (s = 1 \<longleftrightarrow> d \<le> 1 / 2 ^ 53)"
    if "r \<in> set rs" for r
  proof -
    from fin[OF that] obtain d where d: "srDistance r = Fin d" "0 \<le> d" "d \<le> MAX_VALUE"
      using finiteDistance_Fin by blast
    have s: "srScore r = Fin (scoreValue d)"
      using fin[OF that] jsScore_Fin[OF d(2)] by (simp add: d(1))
    show ?thesis
      using d s scoreValue_error[OF d(2,3)] scoreValue_bounds[OF d(2,3)]
        scoreValue_one_iff[OF d(2)] jsScore_Fin[OF d(2)]
      by auto
  qed
  from run len byDistance byScore each show ?thesis
    by (auto simp: list_all_iff)
qed

text \<open>Every store a history reaches from the empty one has distinct keys.\<close>

lemma search_reachable:
  "distinct (map doc_id (documents (runOps ops (emptyStore fk n))))
   \<and> distinct (map chunk_id (chunks (runOps ops (emptyStore fk n))))"
proof -
  have "distinct (map doc_id (documents (emptyStore fk n)))" by (simp add: emptyStore_def)
  then have "distinct (map doc_id (documents (runOps ops (emptyStore fk n))))"
    unfolding runOps_def by (rule distinct_documents_fold)
  then show ?thesis using storeInv_reachable[of ops fk n] by (simp add: storeInv_def)
qed

text \<open>
  The theorem at the example store with the Euclidean distance, for the query vector
  \<open>[1, 0]\<close> and \<open>k = 2\<close>: the distances are 0 and the square root of 2.
\<close>

theorem search_ranking_witness:
  "distinct (map doc_id (documents exampleStore))
   \<and> distinct (map chunk_id (chunks exampleStore))
   \<and> ownBuffer (newFloat32Array [0, 0, 128, 63, 0, 0, 0, 0])
   \<and> faLength (newFloat32Array [0, 0, 128, 63, 0, 0, 0, 0]) = embeddingDimension exampleStore
   \<and> (1::nat) \<le> 2
   \<and> list_all (\<lambda>e. finiteDistance
         (distance_l2 (viewBytes (newFloat32Array [0, 0, 128, 63, 0, 0, 0, 0]))
            (emb_embedding e)))
       (embeddings exampleStore)
   \<and> (\<exists>rs. search distance_l2 (newFloat32Array [0, 0, 128, 63, 0, 0, 0, 0]) (Some 2)
                exampleStore = Inr rs
          \<and> length rs \<le> 2
          \<and> sorted_wrt (\<lambda>a b. jsLe (srDistance a) (srDistance b)) rs
          \<and> sorted_wrt (\<lambda>a b. jsLe (srScore b) (srScore a)) rs)"
proof -
  let ?q = "newFloat32Array [0, 0, 128, 63, 0, 0, 0, 0]"
  have docs: "distinct (map doc_id (documents exampleStore))"
    and rows: "distinct (map chunk_id (chunks exampleStore))"
    by (simp_all add: exampleStore_def)
  have own: "ownBuffer ?q" and len: "faLength ?q = embeddingDimension exampleStore"
    by (simp_all add: ownBuffer_def newFloat32Array_def exampleStore_def)
  have "sqrt 2 \<le> 2" by (rule real_le_lsqrt) simp_all
  moreover have "2 \<le> MAX_VALUE" by (simp add: MAX_VALUE_def)
  ultimately have "sqrt 2 \<le> MAX_VALUE" by linarith
  then have fin: "list_all (\<lambda>e. finiteDistance (distance_l2 (viewBytes ?q) (emb_embedding e)))
       (embeddings exampleStore)"
    by (simp add: viewBytes_def newFloat32Array_def exampleStore_def distance_l2_same
          distance_l2_across MAX_VALUE_def)
  have k: "(1::nat) \<le> 2" by simp
  from search_ranking[where metric = distance_l2 and q = ?q and k = 2 and db = exampleStore,
      OF docs rows own len k fin]
  obtain rs where "search distance_l2 ?q (Some 2) exampleStore = Inr rs" and "length rs \<le> 2"
    and "sorted_wrt (\<lambda>a b. jsLe (srDistance a) (srDistance b)) rs"
    and "sorted_wrt (\<lambda>a b. jsLe (srScore b) (srScore a)) rs"
    by blast
  then have "\<exists>rs. search distance_l2 ?q (Some 2) exampleStore = Inr rs \<and> length rs \<le> 2
          \<and> sorted_wrt (\<lambda>a b. jsLe (srDistance a) (srDistance b)) rs
          \<and> sorted_wrt (\<lambda>a b. jsLe (srScore b) (srScore a)) rs"
    by (intro exI[of _ rs] conjI)
  with docs rows own len k fin show ?thesis by (intro conjI)
qed

text \<open>
  Claim C4 as the specification states it fails. A store holds one chunk, whose vector
  has the elements 2 to the power \<open>-60\<close> and 0. For the query vector \<open>[0, 0]\<close> the
  Euclidean distance of the chunk is 2 to the power \<open>-60\<close>, no step of its computation
  being rounded, and it is not 0; the score is 1, the double nearest to the sum of 1 and
  the distance.
\<close>

theorem search_ranking_counterexample:
  "search distance_l2 (newFloat32Array [0, 0, 0, 0, 0, 0, 0, 0]) None nearStore
     = Inr [\<lparr>srChunkId = 1, srDocumentId = 1, srFilePath = ''a.md'', srContent = ''C1'',
              srLineStart = 1, srLineEnd = 1, srHeading = None,
              srDistance = Fin (1 / 2 ^ 60), srScore = Fin 1\<rparr>]
   \<and> (1 / 2 ^ 60 :: real) \<noteq> 0"
  using score_tiny
  by (simp add: search_def vec0_knn_def orderBy_def joinRows_def resultRow_def bufferFrom_def
        newFloat32Array_def nearStore_def distance_l2_tiny)

text \<open>The history that builds that store.\<close>

lemma nearStore_history:
  "runOps [UpsertDocument \<lparr>filePath = ''a.md'', title = ''A'', lastModified = 1,
                           fileHash = ''a''\<rparr> 7,
           AddChunk \<lparr>cdDocumentId = 1, cdContent = ''C1'', cdChunkIndex = 0, cdLineStart = 1,
                     cdLineEnd = 1, cdHeading = None\<rparr>
             (newFloat32Array [0, 0, 128, 33, 0, 0, 0, 0])] (emptyStore True 2) = nearStore"
  by (simp add: runOps_def upsertDocument_def addChunk_def vec0_insert_def emptyStore_def
        nextRowid_def bufferFrom_def newFloat32Array_def nearStore_def Let_def)

text \<open>The nearest chunk of the example store to the vector of its first chunk.\<close>

lemma search_example:
  "search distance_l2 (newFloat32Array [0, 0, 128, 63, 0, 0, 0, 0]) (Some 1) exampleStore
     = Inr [\<lparr>srChunkId = 1, srDocumentId = 1, srFilePath = ''a.md'', srContent = ''C1'',
              srLineStart = 1, srLineEnd = 1, srHeading = None, srDistance = Fin 0,
              srScore = Fin 1\<rparr>]"
  by (simp add: search_def vec0_knn_def orderBy_def joinRows_def resultRow_def bufferFrom_def
        newFloat32Array_def exampleStore_def distance_l2_same distance_l2_across
        score_zero)

text \<open>
  What the amended claim leaves out: a query vector that is a view of a longer buffer.
  The blob handed to the query is the whole buffer, so on the example store, of
  dimension 2, a view of two elements over a buffer of three is refused.
\<close>

lemma search_view_example:
  "search distance_l2
     \<lparr>faBuffer = [0, 0, 16, 65, 0, 0, 128, 63, 0, 0, 0, 0], faByteOffset = 4, faLength = 2\<rparr>
     (Some 1) exampleStore = Inl DimensionMismatch"
  by (simp add: search_def vec0_knn_def bufferFrom_def exampleStore_def)

section \<open>Properties of the file reader\<close>

text \<open>
  The scenario of the specification: against the root \<open>/docs\<close>, the path
  \<open>../../etc/passwd\<close> is refused, whatever the file system holds.
\<close>

lemma handleReadFile_passwd_example:
  "handleReadFile ''/docs'' cwd fs ''../../etc/passwd''
     = \<lparr>resultText = ''Access denied: File path must be within documentation directory'',
        isError = True\<rparr>"
  by (simp add: handleReadFile_def pathJoin_def pathResolve_def normalize_def
        normalizeString_def startsWith_def Let_def)

text \<open>What the guard does refuse: a resolved path that does not start with the resolved root.\<close>

lemma handleReadFile_refuses:
  "\<not> startsWith (pathResolve cwd (pathJoin docsPath file_path)) (pathResolve cwd docsPath)
   \<Longrightarrow> isError (handleReadFile docsPath cwd fs file_path)
       \<and> resultText (handleReadFile docsPath cwd fs file_path)
           = ''Access denied: File path must be within documentation directory''"
  by (simp add: handleReadFile_def Let_def)

text \<open>
  Claim C3 at the root \<open>/docs\<close> and the path \<open>../docs2/secret.md\<close>. The path resolves to
  \<open>/docs2/secret.md\<close>, which is neither the root nor below it; but that string starts with
  the string \<open>/docs\<close>, the guard lets it through, and \<open>handleReadFile\<close> answers the
  content of a file outside the root.
\<close>

theorem handleReadFile_sibling_directory:
  "handleReadFile ''/docs'' ''/''
     (\<lambda>p. if p = ''/docs2/secret.md'' then Some (File ''secret'') else None)
     ''../docs2/secret.md''
     = \<lparr>resultText = ''# ../docs2/secret.md\<newline>\<newline>secret'', isError = False\<rparr>
   \<and> pathResolve ''/'' (pathJoin ''/docs'' ''../docs2/secret.md'') = ''/docs2/secret.md''
   \<and> \<not> insideRoot ''/docs'' ''/docs2/secret.md''"
  by (simp add: handleReadFile_def pathJoin_def pathResolve_def normalize_def
        normalizeString_def startsWith_def insideRoot_def Let_def)

end
